theory Spec2Isabelle
  imports Complex_Main "HOL-Library.Char_ord" "HOL-Library.List_Lexorder"
    "HOL-Library.Product_Lexorder"
begin

section \<open>Numeric columns with missing values\<close>

text \<open>
  A numeric column of a data frame holds doubles, the missing value \<open>NA\<close> or the
  not-a-number value \<open>NaN\<close>. Finite values are modelled as exact rationals.
  \<open>is.na\<close> is true of both \<open>NA\<close> and \<open>NaN\<close>.
\<close>

datatype cell = NA | NaN | Num rat

fun is_na :: "cell \<Rightarrow> bool" where
  "is_na (Num v) = False"
| "is_na NA = True"
| "is_na NaN = True"

text \<open>The values that remain under \<open>na.rm = TRUE\<close>.\<close>

fun na_rm :: "cell list \<Rightarrow> rat list" where
  "na_rm [] = []"
| "na_rm (Num v # xs) = v # na_rm xs"
| "na_rm (NA # xs) = na_rm xs"
| "na_rm (NaN # xs) = na_rm xs"

text \<open>\<open>mean(x, na.rm = TRUE)\<close>: the mean of nothing is \<open>NaN\<close>.\<close>

definition mean_na_rm :: "cell list \<Rightarrow> cell" where
  "mean_na_rm xs =
     (let vs = na_rm xs
      in if vs = [] then NaN else Num (sum_list vs / of_nat (length vs)))"

text \<open>
  \<open>median(x, na.rm = TRUE)\<close>: the median of nothing is \<open>NA\<close>; otherwise the middle
  element of the sorted values, or the mean of the two middle ones.
\<close>

definition median_na_rm :: "cell list \<Rightarrow> cell" where
  "median_na_rm xs =
     (let vs = sort (na_rm xs); n = length vs
      in if n = 0 then NA
         else if n mod 2 = 1 then Num (vs ! (n div 2))
         else Num ((vs ! (n div 2 - 1) + vs ! (n div 2)) / 2))"

text \<open>\<open>replace_na(x, r)\<close> on one element of a column.\<close>

definition replace_na :: "cell \<Rightarrow> cell \<Rightarrow> cell" where
  "replace_na x r = (if is_na x then r else x)"

section \<open>Global constants\<close>

definition TRAINING_YEARS :: "int list" where
  "TRAINING_YEARS = [2006..2017]"

definition VALIDATION_YEAR :: int where
  "VALIDATION_YEAR = 2018"

definition TEST_YEAR :: int where
  "TEST_YEAR = 2019"

definition TERRITORY_FIPS :: "string list" where
  "TERRITORY_FIPS = [''60'', ''66'', ''69'', ''72'', ''78'']"

section \<open>County adjacency matrix\<close>

text \<open>
  Errors a chunk can stop with: a matrix subscript that names no row or column, and a
  new column whose length is neither the number of rows nor 1.
\<close>

datatype r_error = SubscriptOutOfBounds | SizeMismatch

text \<open>
  The edge list after \<open>filter\<close> and \<open>arrange\<close>: self-loops are dropped, and so are
  the edges whose first county lies in a territory; the second county is not tested.
\<close>

definition county_adj :: "(string \<times> string) list \<Rightarrow> (string \<times> string) list" where
  "county_adj edges =
     sort (filter (\<lambda>(fipscounty, fipsneighbor).
                     fipsneighbor \<noteq> fipscounty \<and> take 2 fipscounty \<notin> set TERRITORY_FIPS) edges)"

text \<open>\<open>unique(x)\<close> keeps the first occurrence of every value, in order.\<close>

definition unique :: "'a list \<Rightarrow> 'a list" where
  "unique xs = fold (\<lambda>x acc. if x \<in> set acc then acc else acc @ [x]) xs []"

definition fips_index :: "(string \<times> string) list \<Rightarrow> string list" where
  "fips_index edges = unique (map fst (county_adj edges))"

text \<open>Position of a name among the dimnames, if it is one of them.\<close>

fun index_of :: "'a list \<Rightarrow> 'a \<Rightarrow> nat option" where
  "index_of [] x = None"
| "index_of (y # ys) x = (if x = y then Some 0 else map_option Suc (index_of ys x))"

text \<open>
  Indexing a matrix by a two-column character matrix: each row names one entry by
  its row and column dimnames; a name that is no dimname is an error.
\<close>

fun subscripts :: "string list \<Rightarrow> (string \<times> string) list \<Rightarrow> r_error + (nat \<times> nat) list" where
  "subscripts names [] = Inr []"
| "subscripts names ((a, b) # es) =
     (case (index_of names a, index_of names b) of
        (Some i, Some j) \<Rightarrow>
          (case subscripts names es of Inl e \<Rightarrow> Inl e | Inr ix \<Rightarrow> Inr ((i, j) # ix))
      | _ \<Rightarrow> Inl SubscriptOutOfBounds)"

definition symmetric_edges :: "(string \<times> string) list \<Rightarrow> bool" where
  "symmetric_edges es = (\<forall>e \<in> set es. (snd e, fst e) \<in> set es)"

definition assign_one :: "nat \<times> nat \<Rightarrow> int list list \<Rightarrow> int list list" where
  "assign_one ij M = (case ij of (i, j) \<Rightarrow> M[i := (M ! i)[j := 1]])"

text \<open>
  A zero matrix with one row and one column per county of the index, then a 1 at
  every (county, neighbour) entry of the edge list. Nothing else is written.
\<close>

definition county_adj_matrix :: "(string \<times> string) list \<Rightarrow> r_error + int list list" where
  "county_adj_matrix edges =
     (let fips = fips_index edges; K = length fips
      in case subscripts fips (county_adj edges) of
           Inl e \<Rightarrow> Inl e
         | Inr ix \<Rightarrow> Inr (fold assign_one ix (replicate K (replicate K 0))))"

section \<open>Input tables\<close>

text \<open>
  The tables \<open>overdose\<close>, \<open>poverty\<close> and \<open>industry\<close> as they stand after their
  own intake chunks: one record per line of the table, keyed by year and the
  five-character county code. Nothing in the intake removes duplicate keys.
\<close>

record overdose_rec =
  od_year :: int
  od_fips :: string
  od_county :: string
  od_death_rate :: cell

record poverty_rec =
  pv_year :: int
  pv_fips :: string
  pv_state :: string
  pv_pov_percent_all :: cell
  pv_median_income :: cell
  pv_pov_percent_minors :: cell

record industry_rec =
  in_year :: int
  in_fips :: string
  in_lq :: cell
  in_high_lq :: cell

text \<open>The join keys of the three tables.\<close>

definition overdose_key :: "overdose_rec \<Rightarrow> int \<times> string" where
  "overdose_key r = (od_year r, od_fips r)"

definition poverty_key :: "poverty_rec \<Rightarrow> int \<times> string" where
  "poverty_key r = (pv_year r, pv_fips r)"

definition industry_key :: "industry_rec \<Rightarrow> int \<times> string" where
  "industry_key r = (in_year r, in_fips r)"

section \<open>The combined data frame\<close>

record df_row =
  year :: int
  fips :: string
  county :: "string option"
  death_rate :: cell
  state :: string
  pov_percent_all :: cell
  median_income :: cell
  pov_percent_minors :: cell
  coal_lq :: cell
  high_coal_lq :: cell
  masked_death_rate :: cell

text \<open>\<open>expand_grid(year = ys, fips)\<close>: every year with every county, years outermost.\<close>

definition expand_grid :: "int list \<Rightarrow> string list \<Rightarrow> (int \<times> string) list" where
  "expand_grid ys fs = concat (map (\<lambda>y. map (\<lambda>f. (y, f)) fs) ys)"

text \<open>
  \<open>left_join(x, y, by)\<close>: each left row is paired with every matching right row, in
  the right table's order; a left row without a match is kept once, with the right
  columns missing.
\<close>

definition left_join :: "'a list \<Rightarrow> ('a \<Rightarrow> 'b \<Rightarrow> bool) \<Rightarrow> 'b list \<Rightarrow> ('a \<times> 'b option) list" where
  "left_join xs match ys =
     concat (map (\<lambda>x. case filter (match x) ys of
                         [] \<Rightarrow> [(x, None)]
                       | m # ms \<Rightarrow> map (\<lambda>r. (x, Some r)) (m # ms)) xs)"

definition joined :: "string list \<Rightarrow> overdose_rec list \<Rightarrow> poverty_rec list \<Rightarrow> industry_rec list
    \<Rightarrow> ((((int \<times> string) \<times> overdose_rec option) \<times> poverty_rec option) \<times> industry_rec option) list" where
  "joined fs overdose poverty industry =
     left_join
       (left_join
          (left_join (expand_grid (TRAINING_YEARS @ [VALIDATION_YEAR]) fs)
             (\<lambda>k r. overdose_key r = k) overdose)
          (\<lambda>j r. poverty_key r = fst j) poverty)
       (\<lambda>j r. industry_key r = fst (fst j)) industry"

definition grid_key ::
  "(((int \<times> string) \<times> overdose_rec option) \<times> poverty_rec option) \<times> industry_rec option
     \<Rightarrow> int \<times> string" where
  "grid_key j = fst (fst (fst j))"

text \<open>
  The first, ungrouped \<open>mutate\<close>: the state is the first two characters of the county
  code, the response is masked in the validation year, and a missing industry
  indicator becomes 0.
\<close>

definition col :: "('r \<Rightarrow> cell) \<Rightarrow> 'r option \<Rightarrow> cell" where
  "col f r = (case r of None \<Rightarrow> NA | Some x \<Rightarrow> f x)"

definition mutate_row ::
  "(((int \<times> string) \<times> overdose_rec option) \<times> poverty_rec option) \<times> industry_rec option \<Rightarrow> df_row" where
  "mutate_row j =
     (case j of ((((y, f), od), pv), ind) \<Rightarrow>
        \<lparr> year = y,
          fips = f,
          county = map_option od_county od,
          death_rate = col od_death_rate od,
          state = take 2 f,
          pov_percent_all = col pv_pov_percent_all pv,
          median_income = col pv_median_income pv,
          pov_percent_minors = col pv_pov_percent_minors pv,
          coal_lq = col in_lq ind,
          high_coal_lq = replace_na (col in_high_lq ind) (Num 0),
          masked_death_rate = (if y \<noteq> VALIDATION_YEAR then col od_death_rate od else NA) \<rparr>)"

text \<open>The rows of the \<open>(year, state)\<close> group a row belongs to.\<close>

definition group_of :: "df_row list \<Rightarrow> df_row \<Rightarrow> df_row list" where
  "group_of rows r = filter (\<lambda>r'. year r' = year r \<and> state r' = state r) rows"

definition group_all_missing :: "df_row list \<Rightarrow> df_row \<Rightarrow> bool" where
  "group_all_missing rows r = list_all (\<lambda>r'. is_na (pov_percent_all r')) (group_of rows r)"

text \<open>
  The grouped \<open>mutate\<close>. Its three assignments run in order, each seeing the columns
  as the earlier ones left them; every replacement value is computed from the
  column \<open>pov_percent_all\<close>.
\<close>

definition impute_pov_percent_all :: "df_row list \<Rightarrow> df_row list" where
  "impute_pov_percent_all rows =
     map (\<lambda>r. r\<lparr>pov_percent_all :=
                 replace_na (pov_percent_all r)
                   (mean_na_rm (map pov_percent_all (group_of rows r)))\<rparr>) rows"

definition impute_pov_percent_minors :: "df_row list \<Rightarrow> df_row list" where
  "impute_pov_percent_minors rows =
     map (\<lambda>r. r\<lparr>pov_percent_minors :=
                 replace_na (pov_percent_minors r)
                   (mean_na_rm (map pov_percent_all (group_of rows r)))\<rparr>) rows"

definition impute_median_income :: "df_row list \<Rightarrow> df_row list" where
  "impute_median_income rows =
     map (\<lambda>r. r\<lparr>median_income :=
                 replace_na (median_income r)
                   (median_na_rm (map pov_percent_all (group_of rows r)))\<rparr>) rows"

definition impute :: "df_row list \<Rightarrow> df_row list" where
  "impute rows = impute_median_income (impute_pov_percent_minors (impute_pov_percent_all rows))"

text \<open>\<open>arrange(year, fips)\<close>: a stable sort by year, ties by county code.\<close>

definition row_key :: "df_row \<Rightarrow> int \<times> string" where
  "row_key r = (year r, fips r)"

definition arrange :: "df_row list \<Rightarrow> df_row list" where
  "arrange rows = sort_key row_key rows"

definition build_df :: "string list \<Rightarrow> overdose_rec list \<Rightarrow> poverty_rec list \<Rightarrow> industry_rec list
    \<Rightarrow> df_row list" where
  "build_df fs overdose poverty industry =
     arrange (impute (map mutate_row (joined fs overdose poverty industry)))"

section \<open>Fitted values and residuals\<close>

text \<open>
  The sampler is a library call; its fitted values enter as a vector of numbers.
  The last \<open>mutate\<close> adds them and the residuals, computed from the column
  \<open>death_rate\<close>. A vector of length 1 is recycled, any other length that differs
  from the number of rows is an error.
\<close>

record fit_row =
  row :: df_row
  fitted :: rat
  residuals :: cell

fun cell_minus :: "cell \<Rightarrow> rat \<Rightarrow> cell" where
  "cell_minus (Num a) b = Num (a - b)"
| "cell_minus NA b = NA"
| "cell_minus NaN b = NaN"

definition fit_one :: "df_row \<Rightarrow> rat \<Rightarrow> fit_row" where
  "fit_one r f = \<lparr> row = r, fitted = f, residuals = cell_minus (death_rate r) f \<rparr>"

definition add_fit :: "df_row list \<Rightarrow> rat list \<Rightarrow> r_error + fit_row list" where
  "add_fit df fit =
     (if length fit = length df then Inr (map2 fit_one df fit)
      else if length fit = 1 then Inr (map (\<lambda>r. fit_one r (hd fit)) df)
      else Inl SizeMismatch)"

text \<open>\<open>df %>% filter(year == VALIDATION_YEAR)\<close>, the rows of the validation plots.\<close>

definition validation_rows :: "fit_row list \<Rightarrow> fit_row list" where
  "validation_rows rows = filter (\<lambda>x. year (row x) = VALIDATION_YEAR) rows"

text \<open>County, masked response and residual of the validation rows, as the plots read them.\<close>

definition validation_report :: "r_error + fit_row list \<Rightarrow> r_error + (string \<times> cell \<times> cell) list" where
  "validation_report res =
     (case res of
        Inl e \<Rightarrow> Inl e
      | Inr rows \<Rightarrow>
          Inr (map (\<lambda>x. (fips (row x), masked_death_rate (row x), residuals x))
                 (validation_rows rows)))"

text \<open>The rows of one (year, county) combination.\<close>

definition rows_for :: "df_row list \<Rightarrow> int \<Rightarrow> string \<Rightarrow> df_row list" where
  "rows_for df y f = filter (\<lambda>r. row_key r = (y, f)) df"

section \<open>The model specification\<close>

text \<open>
  The linear time trend of the model: with \<open>t\<close> running over the \<open>N\<close> years,
  \<open>t_bar = (1/N) * (1 + ... + N)\<close> and \<open>t_star = (t - t_bar) / N\<close>.
\<close>

definition t_bar :: "nat \<Rightarrow> rat" where
  "t_bar N = (1 / of_nat N) * sum_list (map of_nat [1..<Suc N])"

definition t_star :: "nat \<Rightarrow> nat \<Rightarrow> rat" where
  "t_star N t = (of_nat t - t_bar N) / of_nat N"

text \<open>The latent effect \<open>psi_kt = beta_1 + phi_k + (alpha + delta_k) * t_star\<close>.\<close>

definition psi :: "rat \<Rightarrow> rat \<Rightarrow> rat \<Rightarrow> rat \<Rightarrow> nat \<Rightarrow> nat \<Rightarrow> rat" where
  "psi beta1 phi_k alpha delta_k N t = beta1 + phi_k + (alpha + delta_k) * t_star N t"

text \<open>
  The mean of the response. With the identity link, \<open>mu_kt = x_kt' beta + psi_kt\<close>;
  the response is distributed around it.
\<close>

definition covariate_term :: "rat list \<Rightarrow> rat list \<Rightarrow> rat" where
  "covariate_term x b = sum_list (map2 (\<lambda>u v. u * v) x b)"

definition linear_predictor ::
  "rat list \<Rightarrow> rat list \<Rightarrow> rat \<Rightarrow> rat \<Rightarrow> rat \<Rightarrow> rat \<Rightarrow> nat \<Rightarrow> nat \<Rightarrow> rat" where
  "linear_predictor x b b1 phi_k a delta_k N t = covariate_term x b + psi b1 phi_k a delta_k N t"

text \<open>
  The years of the data frame, in order, and their number \<open>N\<close>. The index \<open>t\<close>
  of a year is its position among them, counted from 1; the trend value of a row is
  the one of its year.
\<close>

definition data_years :: "int list" where
  "data_years = TRAINING_YEARS @ [VALIDATION_YEAR]"

definition N_years :: nat where
  "N_years = length data_years"

definition time_index :: "int \<Rightarrow> nat option" where
  "time_index y = map_option Suc (index_of data_years y)"

definition row_t_star :: "df_row \<Rightarrow> rat option" where
  "row_t_star r = map_option (t_star N_years) (time_index (year r))"

text \<open>
  The trend as the written specification words it, \<open>(t - mean(t)) / span(t)\<close> over
  the set of time indices: the span of a set of numbers is its largest element minus
  its smallest.
\<close>

definition time_indices :: "nat \<Rightarrow> rat list" where
  "time_indices N = map of_nat [1..<Suc N]"

definition mean_of :: "rat list \<Rightarrow> rat" where
  "mean_of ts = sum_list ts / of_nat (length ts)"

definition span_of :: "rat list \<Rightarrow> rat" where
  "span_of ts = (case ts of [] \<Rightarrow> 0 | x # xs \<Rightarrow> fold max xs x - fold min xs x)"

definition spec_t_star :: "rat list \<Rightarrow> rat \<Rightarrow> rat" where
  "spec_t_star ts t = (t - mean_of ts) / span_of ts"

text \<open>Modelled from the spec: the fitted value of an observation is the linear
  predictor at the posterior means,
  \<open>beta'x + beta_1 + phi_k + (alpha + delta_k) * t_star\<close> (the fitted values come out
  of the library call, whose code is missing). The trend value is an argument.\<close>

definition fitted_value :: "rat \<Rightarrow> rat \<Rightarrow> rat \<Rightarrow> rat \<Rightarrow> rat \<Rightarrow> rat \<Rightarrow> rat" where
  "fitted_value xb b1 phi_k a delta_k tstar = xb + b1 + phi_k + (a + delta_k) * tstar"

text \<open>
  The conditional prior of one random effect given the others (Leroux): with
  \<open>w_kj\<close> the row \<open>k\<close> of the adjacency matrix, the mean is
  \<open>rho * sum_j w_kj x_j / (rho * sum_j w_kj + 1 - rho)\<close> and the variance is
  \<open>tau2 / (rho * sum_j w_kj + 1 - rho)\<close>. A zero denominator gives no finite value.
\<close>

definition degree :: "int list list \<Rightarrow> nat \<Rightarrow> nat" where
  "degree W k = length (filter (\<lambda>w. w \<noteq> 0) (W ! k))"

definition neighbour_sum :: "int list list \<Rightarrow> rat list \<Rightarrow> nat \<Rightarrow> rat" where
  "neighbour_sum W x k = sum_list (map2 (\<lambda>w v. of_int w * v) (W ! k) x)"

definition weight_sum :: "int list list \<Rightarrow> nat \<Rightarrow> rat" where
  "weight_sum W k = of_int (sum_list (W ! k))"

definition car_denominator :: "rat \<Rightarrow> int list list \<Rightarrow> nat \<Rightarrow> rat" where
  "car_denominator rho W k = rho * weight_sum W k + 1 - rho"

definition car_conditional ::
  "rat \<Rightarrow> rat \<Rightarrow> int list list \<Rightarrow> rat list \<Rightarrow> nat \<Rightarrow> (rat \<times> rat) option" where
  "car_conditional rho tau2 W x k =
     (if car_denominator rho W k = 0 then None
      else Some (rho * neighbour_sum W x k / car_denominator rho W k,
                 tau2 / car_denominator rho W k))"

definition phi_conditional ::
  "rat \<Rightarrow> rat \<Rightarrow> int list list \<Rightarrow> rat list \<Rightarrow> nat \<Rightarrow> (rat \<times> rat) option" where
  "phi_conditional rho_int tau2_int W phi k = car_conditional rho_int tau2_int W phi k"

definition delta_conditional ::
  "rat \<Rightarrow> rat \<Rightarrow> int list list \<Rightarrow> rat list \<Rightarrow> nat \<Rightarrow> (rat \<times> rat) option" where
  "delta_conditional rho_slo tau2_slo W delta k = car_conditional rho_slo tau2_slo W delta k"


section \<open>The sampler engine\<close>

text \<open>
  The repository runs the sampler through one library call,
  \<open>ST.CARlinear(..., burnin = 5000, n.sample = 10000, thin = 2)\<close>; the code of the
  sampler is not part of it. The definitions of this section follow the written
  specification of the engine instead.
\<close>

text \<open>Modelled from the spec: the error taxonomy of the engine (the sampler's code is
  missing). A numerical error carries the offending parameter and the last valid
  iteration.\<close>

datatype engine_error = ConfigurationError | DataError | NumericalError string nat

text \<open>Modelled from the spec: the part of the model configuration that drives the
  iteration schedule (the sampler's code is missing).\<close>

record sampler_config =
  burn_in :: int
  n_sample :: int
  thin :: int

text \<open>Modelled from the spec: a run needs \<open>burn_in \<ge> 0\<close>, \<open>n_sample > 0\<close> and
  \<open>n_sample % thin == 0\<close> (the sampler's code is missing). A thinning interval
  below 1 leaves the remainder undefined and is refused as well.\<close>

definition config_ok :: "sampler_config \<Rightarrow> bool" where
  "config_ok c \<longleftrightarrow> 0 \<le> burn_in c \<and> 0 < n_sample c \<and> 0 < thin c \<and> n_sample c mod thin c = 0"

text \<open>Modelled from the spec: \<open>N_total = burn_in + n_sample\<close> iterations (the
  sampler's code is missing).\<close>

definition N_total :: "sampler_config \<Rightarrow> nat" where
  "N_total c = nat (burn_in c + n_sample c)"

text \<open>Modelled from the spec: iterations \<open>1..burn_in\<close> are discarded, and of the
  remaining draws every \<open>thin\<close>-th is retained (the sampler's code is missing).\<close>

definition retained :: "sampler_config \<Rightarrow> nat \<Rightarrow> bool" where
  "retained c i \<longleftrightarrow> burn_in c < int i \<and> (int i - burn_in c) mod thin c = 0"

text \<open>Modelled from the spec: the parameter state (the sampler's code is missing).\<close>

record param_state =
  beta :: "rat list"
  phi :: "rat list"
  delta :: "rat list"
  tau2_int :: rat
  tau2_slo :: rat
  rho_int :: rat
  rho_slo :: rat
  alpha :: rat
  nu2 :: rat

text \<open>Modelled from the spec: the invariant of the parameter state, variances above 0
  and smoothness parameters in [0, 1) (the sampler's code is missing).\<close>

definition valid_state :: "param_state \<Rightarrow> bool" where
  "valid_state s \<longleftrightarrow>
     0 < tau2_int s \<and> 0 < tau2_slo s \<and> 0 < nu2 s
     \<and> 0 \<le> rho_int s \<and> rho_int s < 1 \<and> 0 \<le> rho_slo s \<and> rho_slo s < 1"

text \<open>Modelled from the spec: what the random stream delivers to one sweep (the
  sampler's code is missing): the value drawn from each conjugate full conditional,
  and for each smoothness parameter the random-walk proposal and whether the
  Metropolis ratio accepts it. The stream is an input of the model.\<close>

record draws =
  beta_draw :: "rat list"
  phi_draw :: "rat list"
  delta_draw :: "rat list"
  alpha_draw :: rat
  tau2_int_draw :: rat
  tau2_slo_draw :: rat
  rho_int_proposal :: rat
  rho_int_accept :: bool
  rho_slo_proposal :: rat
  rho_slo_accept :: bool
  nu2_draw :: rat

text \<open>Modelled from the spec: after the pass over the counties the random effects are
  re-centred by subtracting their mean (the sampler's code is missing).\<close>

definition recenter :: "rat list \<Rightarrow> rat list" where
  "recenter xs = (if xs = [] then [] else map (\<lambda>x. x - sum_list xs / of_nat (length xs)) xs)"

text \<open>Modelled from the spec: the Metropolis step of a smoothness parameter (the
  sampler's code is missing). A proposal outside [0, 1) is rejected without
  evaluating the ratio; otherwise the ratio decides.\<close>

definition metropolis_rho :: "rat \<Rightarrow> rat \<Rightarrow> bool \<Rightarrow> rat" where
  "metropolis_rho current proposal accept =
     (if proposal < 0 \<or> 1 \<le> proposal then current
      else if accept then proposal else current)"

text \<open>Modelled from the spec: one sweep, in the order of the seven update steps (the
  sampler's code is missing). A variance that is not positive aborts the sweep with
  the name of the parameter; nothing is clamped or skipped.\<close>

definition sweep :: "draws \<Rightarrow> param_state \<Rightarrow> string + param_state" where
  "sweep d s =
     (let s1 = s\<lparr>beta := beta_draw d\<rparr>;
          s2 = s1\<lparr>phi := recenter (phi_draw d)\<rparr>;
          s3 = s2\<lparr>delta := recenter (delta_draw d)\<rparr>;
          s4 = s3\<lparr>alpha := alpha_draw d\<rparr>
      in if tau2_int_draw d \<le> 0 then Inl ''tau2_int''
         else if tau2_slo_draw d \<le> 0 then Inl ''tau2_slo''
         else
           let s5 = s4\<lparr>tau2_int := tau2_int_draw d, tau2_slo := tau2_slo_draw d\<rparr>;
               s6 = s5\<lparr>rho_int := metropolis_rho (rho_int s5) (rho_int_proposal d) (rho_int_accept d),
                        rho_slo := metropolis_rho (rho_slo s5) (rho_slo_proposal d) (rho_slo_accept d)\<rparr>
           in if nu2_draw d \<le> 0 then Inl ''nu2''
              else Inr (s6\<lparr>nu2 := nu2_draw d\<rparr>))"

text \<open>Modelled from the spec: the sweeps of a run that draw a positive value for each
  variance (the sampler's code is missing).\<close>

definition draws_positive :: "draws \<Rightarrow> bool" where
  "draws_positive d \<longleftrightarrow> 0 < tau2_int_draw d \<and> 0 < tau2_slo_draw d \<and> 0 < nu2_draw d"

text \<open>Modelled from the spec: the result of a run (the sampler's code is missing): the
  error that ended it, if any, the number of iterations executed, and the retained
  samples, each with the iteration that produced it.\<close>

record run_result =
  outcome :: "engine_error option"
  iterations :: nat
  samples :: "(nat \<times> param_state) list"

text \<open>Modelled from the spec: the state machine over the iterations (the sampler's
  code is missing). \<open>i\<close> iterations are done and \<open>n\<close> remain; iteration
  \<open>i + 1\<close> sweeps the state once and stores the new state when it is retained. A
  numerical error ends the run and keeps the samples stored so far.\<close>

fun iterate :: "sampler_config \<Rightarrow> (nat \<Rightarrow> draws) \<Rightarrow> nat \<Rightarrow> nat \<Rightarrow> param_state
    \<Rightarrow> (nat \<times> param_state) list \<Rightarrow> run_result" where
  "iterate c ds i 0 s acc = \<lparr>outcome = None, iterations = i, samples = acc\<rparr>"
| "iterate c ds i (Suc n) s acc =
     (case sweep (ds (Suc i)) s of
        Inl name \<Rightarrow> \<lparr>outcome = Some (NumericalError name i), iterations = i, samples = acc\<rparr>
      | Inr s' \<Rightarrow>
          iterate c ds (Suc i) n s' (if retained c (Suc i) then acc @ [(Suc i, s')] else acc))"

text \<open>Modelled from the spec: a run checks the configuration before the first
  iteration and fails with a configuration error when it is violated (the sampler's
  code is missing).\<close>

definition run_chain :: "sampler_config \<Rightarrow> (nat \<Rightarrow> draws) \<Rightarrow> param_state \<Rightarrow> run_result" where
  "run_chain c ds init =
     (if config_ok c then iterate c ds 0 (N_total c) init []
      else \<lparr>outcome = Some ConfigurationError, iterations = 0, samples = []\<rparr>)"

section \<open>Imputation of the poverty and income columns\<close>

lemma na_rm_all_missing: "\<forall>c\<in>set cs. is_na c \<Longrightarrow> na_rm cs = []"
  by (induction cs rule: na_rm.induct) auto

lemma length_impute: "length (impute rows) = length rows"
  by (simp add: impute_def impute_median_income_def impute_pov_percent_minors_def
      impute_pov_percent_all_def)

lemma impute_nth_pov_percent_all:
  assumes "i < length rows"
  shows "pov_percent_all (impute rows ! i) =
           replace_na (pov_percent_all (rows ! i))
             (mean_na_rm (map pov_percent_all (group_of rows (rows ! i))))"
  using assms
  by (simp add: impute_def impute_median_income_def impute_pov_percent_minors_def
      impute_pov_percent_all_def)

lemma impute_nth_key:
  assumes "i < length rows"
  shows "year (impute rows ! i) = year (rows ! i) \<and> fips (impute rows ! i) = fips (rows ! i)
     \<and> state (impute rows ! i) = state (rows ! i) \<and> death_rate (impute rows ! i) = death_rate (rows ! i)
     \<and> masked_death_rate (impute rows ! i) = masked_death_rate (rows ! i)"
  using assms
  by (simp add: impute_def impute_median_income_def impute_pov_percent_minors_def
      impute_pov_percent_all_def)

text \<open>
  Claim C1 (what the code does at one group). Each missing covariate should be filled
  from the statistic of its own column within the (year, state) group. In the group
  below, the first county has no \<open>pov_percent_minors\<close> and no \<open>median_income\<close>;
  the only other values of these columns in the group are 30 and 50000. The grouped
  \<open>mutate\<close> fills both with 15, the mean and the median of \<open>pov_percent_all\<close>
  (10 and 20).
\<close>

theorem imputation_uses_pov_percent_all:
  "impute
     [\<lparr>year = 2006, fips = ''01001'', county = None, death_rate = NA, state = ''01'',
        pov_percent_all = Num 10, median_income = NA, pov_percent_minors = NA,
        coal_lq = NA, high_coal_lq = Num 0, masked_death_rate = NA\<rparr>,
      \<lparr>year = 2006, fips = ''01003'', county = None, death_rate = NA, state = ''01'',
        pov_percent_all = Num 20, median_income = Num 50000, pov_percent_minors = Num 30,
        coal_lq = NA, high_coal_lq = Num 0, masked_death_rate = NA\<rparr>]
   = [\<lparr>year = 2006, fips = ''01001'', county = None, death_rate = NA, state = ''01'',
        pov_percent_all = Num 10, median_income = Num 15, pov_percent_minors = Num 15,
        coal_lq = NA, high_coal_lq = Num 0, masked_death_rate = NA\<rparr>,
      \<lparr>year = 2006, fips = ''01003'', county = None, death_rate = NA, state = ''01'',
        pov_percent_all = Num 20, median_income = Num 50000, pov_percent_minors = Num 30,
        coal_lq = NA, high_coal_lq = Num 0, masked_death_rate = NA\<rparr>]"
  by code_simp

text \<open>
  Claim C8, as the code has it. When \<open>pov_percent_all\<close> is missing in every row of
  a (year, state) group, the grouped \<open>mutate\<close> stops with no error: all rows are
  kept, with their year and county, and \<open>pov_percent_all\<close> of the rows of that
  group is \<open>NaN\<close>, the mean of no values.
\<close>

theorem impute_group_all_missing:
  assumes "i < length rows"
    and "group_all_missing rows (rows ! i)"
  shows "length (impute rows) = length rows
       \<and> year (impute rows ! i) = year (rows ! i)
       \<and> fips (impute rows ! i) = fips (rows ! i)
       \<and> pov_percent_all (impute rows ! i) = NaN"
proof -
  have all: "\<forall>r' \<in> set (group_of rows (rows ! i)). is_na (pov_percent_all r')"
    using assms(2) by (simp add: group_all_missing_def list_all_iff)
  have mem: "rows ! i \<in> set (group_of rows (rows ! i))"
    using assms(1) by (simp add: group_of_def)
  with all have miss: "is_na (pov_percent_all (rows ! i))" by blast
  have "na_rm (map pov_percent_all (group_of rows (rows ! i))) = []"
    using all by (intro na_rm_all_missing) simp
  then have "mean_na_rm (map pov_percent_all (group_of rows (rows ! i))) = NaN"
    by (simp add: mean_na_rm_def)
  with miss have "pov_percent_all (impute rows ! i) = NaN"
    using impute_nth_pov_percent_all [OF assms(1)] by (simp add: replace_na_def)
  then show ?thesis
    using length_impute impute_nth_key [OF assms(1)] by simp
qed

text \<open>
  The statement above at a group of one county whose \<open>pov_percent_all\<close> is missing.
\<close>

theorem impute_group_all_missing_witness:
  "(0::nat) < length
       [\<lparr>year = 2006, fips = ''01001'', county = None, death_rate = NA, state = ''01'',
          pov_percent_all = NA, median_income = Num 40000, pov_percent_minors = Num 12,
          coal_lq = NA, high_coal_lq = Num 0, masked_death_rate = NA\<rparr>]
   \<and> pov_percent_all (impute
       [\<lparr>year = 2006, fips = ''01001'', county = None, death_rate = NA, state = ''01'',
          pov_percent_all = NA, median_income = Num 40000, pov_percent_minors = Num 12,
          coal_lq = NA, high_coal_lq = Num 0, masked_death_rate = NA\<rparr>] ! 0) = NaN"
proof -
  let ?rows = "[\<lparr>year = 2006, fips = ''01001'', county = None, death_rate = NA, state = ''01'',
          pov_percent_all = NA, median_income = Num 40000, pov_percent_minors = Num 12,
          coal_lq = NA, high_coal_lq = Num 0, masked_death_rate = NA\<rparr>]"
  have l: "0 < length ?rows" by simp
  have g: "group_all_missing ?rows (?rows ! 0)"
    by (simp add: group_all_missing_def group_of_def)
  from impute_group_all_missing [OF l g] show ?thesis by simp
qed

section \<open>Joins\<close>

lemma left_join_fst_set: "fst ` set (left_join xs m ys) = set xs"
proof (induction xs)
  case Nil
  then show ?case by (simp add: left_join_def)
next
  case (Cons x xs)
  have "fst ` set (left_join (x # xs) m ys) =
        fst ` set (left_join [x] m ys) \<union> fst ` set (left_join xs m ys)"
    by (simp add: left_join_def image_Un)
  moreover have "fst ` set (left_join [x] m ys) = {x}"
    by (cases "filter (m x) ys") (auto simp: left_join_def image_iff)
  ultimately show ?case using Cons by simp
qed

lemma left_join_unique:
  assumes "\<forall>x\<in>set xs. length (filter (m x) ys) \<le> 1"
  shows "map fst (left_join xs m ys) = xs"
  using assms
proof (induction xs)
  case Nil
  then show ?case by (simp add: left_join_def)
next
  case (Cons x xs)
  have one: "length (filter (m x) ys) \<le> 1" using Cons.prems by simp
  have "map fst (left_join [x] m ys) = [x]"
  proof (cases "filter (m x) ys")
    case Nil
    then show ?thesis by (simp add: left_join_def)
  next
    case (Cons a as)
    with one have "as = []" by simp
    with Cons show ?thesis by (simp add: left_join_def)
  qed
  moreover have "left_join (x # xs) m ys = left_join [x] m ys @ left_join xs m ys"
    by (simp add: left_join_def)
  ultimately show ?case using Cons by simp
qed

lemma distinct_key_filter:
  assumes "distinct (map k xs)"
  shows "length (filter (\<lambda>r. k r = v) xs) \<le> 1"
  using assms
proof (induction xs)
  case Nil
  then show ?case by simp
next
  case (Cons x xs)
  show ?case
  proof (cases "k x = v")
    case True
    with Cons.prems have "filter (\<lambda>r. k r = v) xs = []"
      by (force simp: filter_empty_conv image_iff)
    with True show ?thesis by simp
  next
    case False
    with Cons show ?thesis by simp
  qed
qed

lemma joined_key_set:
  "grid_key ` set (joined fs od pv ind) = set (expand_grid (TRAINING_YEARS @ [VALIDATION_YEAR]) fs)"
proof -
  have "grid_key ` set (joined fs od pv ind) = fst ` fst ` fst ` set (joined fs od pv ind)"
    by (simp add: grid_key_def image_image)
  then show ?thesis
    by (simp add: joined_def left_join_fst_set)
qed

section \<open>The adjacency matrix entry by entry\<close>

lemma index_of_Some: "index_of xs x = Some i \<Longrightarrow> i < length xs \<and> xs ! i = x"
  by (induction xs arbitrary: i) (auto split: if_splits)

lemma index_of_nth: "distinct xs \<Longrightarrow> i < length xs \<Longrightarrow> index_of xs (xs ! i) = Some i"
proof (induction xs arbitrary: i)
  case Nil
  then show ?case by simp
next
  case (Cons y ys)
  show ?case
  proof (cases i)
    case 0
    then show ?thesis by simp
  next
    case (Suc n)
    with Cons.prems have "ys ! n \<noteq> y" "n < length ys" "distinct ys" by auto
    with Cons.IH [of n] Suc show ?thesis by simp
  qed
qed

lemma unique_fold_distinct:
  "distinct acc \<Longrightarrow> distinct (fold (\<lambda>x acc. if x \<in> set acc then acc else acc @ [x]) xs acc)"
  by (induction xs arbitrary: acc) auto

lemma unique_fold_set:
  "set (fold (\<lambda>x acc. if x \<in> set acc then acc else acc @ [x]) xs acc) = set acc \<union> set xs"
  by (induction xs arbitrary: acc) auto

lemma distinct_unique: "distinct (unique xs)"
  by (simp add: unique_def unique_fold_distinct)

lemma set_unique: "set (unique xs) = set xs"
  by (simp add: unique_def unique_fold_set)

lemma subscripts_Inr:
  "subscripts names es = Inr ix \<Longrightarrow>
     list_all2 (\<lambda>e p. index_of names (fst e) = Some (fst p) \<and> index_of names (snd e) = Some (snd p)) es ix"
proof (induction es arbitrary: ix)
  case Nil
  then show ?case by simp
next
  case (Cons e es)
  obtain a b where e: "e = (a, b)" by (cases e)
  from Cons.prems e obtain i j ix' where
    "index_of names a = Some i" "index_of names b = Some j"
    "subscripts names es = Inr ix'" "ix = (i, j) # ix'"
    by (auto split: option.splits sum.splits)
  with Cons.IH [of ix'] e show ?case by simp
qed

lemma assign_one_shape:
  assumes "length M = K" "\<forall>r \<in> set M. length r = K"
  shows "length (assign_one p M) = K \<and> (\<forall>r \<in> set (assign_one p M). length r = K)"
proof -
  obtain i j where p: "p = (i, j)" by (cases p)
  have "\<forall>r \<in> set (M[i := (M ! i)[j := 1]]). length r = K"
  proof (cases "i < length M")
    case True
    then have "length ((M ! i)[j := 1]) = K" using assms(2) by simp
    moreover have "set (M[i := (M ! i)[j := 1]]) \<subseteq> insert ((M ! i)[j := 1]) (set M)"
      by (rule set_update_subset_insert)
    ultimately show ?thesis using assms(2) by blast
  next
    case False
    then have "M[i := (M ! i)[j := 1]] = M" by (intro list_update_beyond) simp
    then show ?thesis using assms(2) by simp
  qed
  with assms p show ?thesis by (simp add: assign_one_def)
qed

lemma assign_one_nth:
  assumes "length M = K" "\<forall>r \<in> set M. length r = K" "fst p < K" "snd p < K" "a < K" "b < K"
  shows "assign_one p M ! a ! b = (if (a, b) = p then 1 else M ! a ! b)"
proof -
  obtain i j where p: "p = (i, j)" by (cases p)
  have "length (M ! i) = K" using assms p by simp
  with assms p show ?thesis
    by (auto simp: assign_one_def nth_list_update)
qed

lemma fold_assign_nth:
  assumes "\<forall>p \<in> set ix. fst p < K \<and> snd p < K" "length M = K" "\<forall>r \<in> set M. length r = K"
    "a < K" "b < K"
  shows "fold assign_one ix M ! a ! b = (if (a, b) \<in> set ix then 1 else M ! a ! b)"
  using assms
proof (induction ix arbitrary: M)
  case Nil
  then show ?case by simp
next
  case (Cons p ix)
  have shape: "length (assign_one p M) = K" "\<forall>r \<in> set (assign_one p M). length r = K"
    using assign_one_shape [OF Cons.prems(2,3)] by auto
  have "fold assign_one ix (assign_one p M) ! a ! b =
          (if (a, b) \<in> set ix then 1 else assign_one p M ! a ! b)"
    using Cons.IH [OF _ shape] Cons.prems by simp
  moreover have "assign_one p M ! a ! b = (if (a, b) = p then 1 else M ! a ! b)"
    using assign_one_nth [of M K p a b] Cons.prems by simp
  ultimately show ?case by auto
qed

lemma fold_assign_shape:
  assumes "length M = K" "\<forall>r \<in> set M. length r = K"
  shows "length (fold assign_one ix M) = K \<and> (\<forall>r \<in> set (fold assign_one ix M). length r = K)"
  using assms
proof (induction ix arbitrary: M)
  case Nil
  then show ?case by simp
next
  case (Cons p ix)
  show ?case using Cons.IH [of "assign_one p M"] assign_one_shape [OF Cons.prems] by simp
qed

lemma county_adj_no_loop: "(c, c) \<notin> set (county_adj edges)"
  by (simp add: county_adj_def)

lemma matrix_entry:
  assumes W: "county_adj_matrix edges = Inr W"
    and a: "a < length (fips_index edges)" and b: "b < length (fips_index edges)"
  shows "W ! a ! b =
     (if (fips_index edges ! a, fips_index edges ! b) \<in> set (county_adj edges) then 1 else 0)"
proof -
  let ?fips = "fips_index edges" and ?K = "length (fips_index edges)"
  from W obtain ix where ix: "subscripts ?fips (county_adj edges) = Inr ix"
    and Wdef: "W = fold assign_one ix (replicate ?K (replicate ?K 0))"
    by (auto simp: county_adj_matrix_def Let_def split: sum.splits)
  have rel: "list_all2 (\<lambda>e p. index_of ?fips (fst e) = Some (fst p)
                \<and> index_of ?fips (snd e) = Some (snd p)) (county_adj edges) ix"
    using subscripts_Inr [OF ix] .
  have dist: "distinct ?fips" by (simp add: fips_index_def distinct_unique)
  have range: "\<forall>p \<in> set ix. fst p < ?K \<and> snd p < ?K"
  proof
    fix p assume "p \<in> set ix"
    then obtain n where n: "n < length ix" "ix ! n = p" by (auto simp: in_set_conv_nth)
    with rel have "index_of ?fips (fst (county_adj edges ! n)) = Some (fst p)"
      "index_of ?fips (snd (county_adj edges ! n)) = Some (snd p)"
      by (auto simp: list_all2_conv_all_nth)
    then show "fst p < ?K \<and> snd p < ?K" using index_of_Some by fast
  qed
  have iff: "(a, b) \<in> set ix \<longleftrightarrow> (?fips ! a, ?fips ! b) \<in> set (county_adj edges)"
  proof
    assume "(a, b) \<in> set ix"
    then obtain n where n: "n < length ix" "ix ! n = (a, b)" by (auto simp: in_set_conv_nth)
    with rel have len: "n < length (county_adj edges)"
      and "index_of ?fips (fst (county_adj edges ! n)) = Some a"
      "index_of ?fips (snd (county_adj edges ! n)) = Some b"
      by (auto simp: list_all2_conv_all_nth)
    then have "fst (county_adj edges ! n) = ?fips ! a" "snd (county_adj edges ! n) = ?fips ! b"
      using index_of_Some by fastforce+
    then have "county_adj edges ! n = (?fips ! a, ?fips ! b)" by (simp add: prod_eq_iff)
    with len show "(?fips ! a, ?fips ! b) \<in> set (county_adj edges)"
      by (metis nth_mem)
  next
    assume "(?fips ! a, ?fips ! b) \<in> set (county_adj edges)"
    then obtain n where n: "n < length (county_adj edges)"
      "county_adj edges ! n = (?fips ! a, ?fips ! b)" by (auto simp: in_set_conv_nth)
    with rel have len: "n < length ix"
      and "index_of ?fips (?fips ! a) = Some (fst (ix ! n))"
      "index_of ?fips (?fips ! b) = Some (snd (ix ! n))"
      by (auto simp: list_all2_conv_all_nth)
    then have "fst (ix ! n) = a" "snd (ix ! n) = b"
      using index_of_nth [OF dist a] index_of_nth [OF dist b] by simp_all
    then have "ix ! n = (a, b)" by (simp add: prod_eq_iff)
    with len show "(a, b) \<in> set ix" by (metis nth_mem)
  qed
  have "W ! a ! b = (if (a, b) \<in> set ix then 1 else replicate ?K (replicate ?K 0) ! a ! b)"
    unfolding Wdef using range a b by (intro fold_assign_nth [where K = ?K]) auto
  with iff a b show ?thesis by simp
qed

lemma matrix_shape:
  assumes W: "county_adj_matrix edges = Inr W"
  shows "length W = length (fips_index edges) \<and> (\<forall>r \<in> set W. length r = length (fips_index edges))"
proof -
  let ?K = "length (fips_index edges)"
  from W obtain ix where Wdef: "W = fold assign_one ix (replicate ?K (replicate ?K 0))"
    by (auto simp: county_adj_matrix_def Let_def split: sum.splits)
  show ?thesis unfolding Wdef by (intro fold_assign_shape) auto
qed

text \<open>
  Claim C7, as the code has it. When the matrix is built (no subscript error), it is
  square over the county index, its entry (i, j) is 1 exactly when the filtered edge
  list holds the edge from county i to county j, and its diagonal is 0, self-loops
  having been filtered out. It is symmetric whenever the filtered edge list is; the
  code neither rejects nor symmetrises an edge list that is not.
\<close>

theorem county_adj_matrix_weights:
  assumes "county_adj_matrix edges = Inr W"
  shows "length W = length (fips_index edges)
       \<and> (\<forall>r \<in> set W. length r = length (fips_index edges))
       \<and> (\<forall>i < length (fips_index edges). W ! i ! i = 0)
       \<and> (\<forall>i < length (fips_index edges). \<forall>j < length (fips_index edges).
            W ! i ! j = (if (fips_index edges ! i, fips_index edges ! j) \<in> set (county_adj edges)
                         then 1 else 0))
       \<and> (symmetric_edges (county_adj edges) \<longrightarrow>
            (\<forall>i < length (fips_index edges). \<forall>j < length (fips_index edges). W ! i ! j = W ! j ! i))"
proof -
  have "\<forall>i < length (fips_index edges). W ! i ! i = 0"
    using matrix_entry [OF assms] county_adj_no_loop by simp
  moreover have "(\<forall>i < length (fips_index edges). \<forall>j < length (fips_index edges).
            W ! i ! j = (if (fips_index edges ! i, fips_index edges ! j) \<in> set (county_adj edges)
                         then 1 else 0))"
    using matrix_entry [OF assms] by simp
  moreover have "symmetric_edges (county_adj edges) \<longrightarrow>
            (\<forall>i < length (fips_index edges). \<forall>j < length (fips_index edges). W ! i ! j = W ! j ! i)"
  proof (intro impI allI)
    assume "symmetric_edges (county_adj edges)"
    then have sym: "\<forall>e \<in> set (county_adj edges). (snd e, fst e) \<in> set (county_adj edges)"
      by (simp add: symmetric_edges_def)
    fix i j
    assume i: "i < length (fips_index edges)" and j: "j < length (fips_index edges)"
    have "(fips_index edges ! i, fips_index edges ! j) \<in> set (county_adj edges) \<longleftrightarrow>
          (fips_index edges ! j, fips_index edges ! i) \<in> set (county_adj edges)"
      using sym by force
    then show "W ! i ! j = W ! j ! i"
      using matrix_entry [OF assms i j] matrix_entry [OF assms j i] by simp
  qed
  ultimately show ?thesis using matrix_shape [OF assms] by blast
qed

text \<open>
  The statement above at two adjacent counties, listed in both directions and with
  one self-loop, which the filter drops.
\<close>

theorem county_adj_matrix_weights_witness:
  "county_adj_matrix [(''01001'', ''01003''), (''01003'', ''01001''), (''01001'', ''01001'')]
      = Inr [[0, 1], [1, 0]]
   \<and> symmetric_edges (county_adj [(''01001'', ''01003''), (''01003'', ''01001''), (''01001'', ''01001'')])
   \<and> length (fips_index [(''01001'', ''01003''), (''01003'', ''01001''), (''01001'', ''01001'')]) = 2
   \<and> [[0, 1], [1, 0 :: int]] ! 0 ! 0 = 0
   \<and> [[0, 1], [1, 0 :: int]] ! 0 ! 1 = [[0, 1], [1, 0]] ! 1 ! 0"
proof -
  let ?E = "[(''01001'', ''01003''), (''01003'', ''01001''), (''01001'', ''01001'')]"
  have m: "county_adj_matrix ?E = Inr [[0, 1], [1, 0]]" by code_simp
  have s: "symmetric_edges (county_adj ?E)" by code_simp
  have k: "length (fips_index ?E) = 2" by code_simp
  from county_adj_matrix_weights [OF m] s k show ?thesis
    using m by simp
qed

text \<open>
  Claim C7 as stated fails: an edge list that holds the edge from 01001 to 01003 but
  not the reverse is accepted, and the matrix has weight 1 from the first county to
  the second and 0 back.
\<close>

theorem asymmetric_edges_counterexample:
  "county_adj_matrix [(''01001'', ''01003''), (''01003'', ''01005''), (''01005'', ''01003'')]
     = Inr [[0, 1, 0], [0, 0, 1], [0, 1, 0]]"
  by code_simp

section \<open>Rows of the combined data frame\<close>

lemma study_years: "TRAINING_YEARS @ [VALIDATION_YEAR] = [2006..2018]"
  unfolding TRAINING_YEARS_def VALIDATION_YEAR_def
  using upto_rec2 [of 2006 2018] by simp

lemma mutate_row_key: "row_key (mutate_row j) = grid_key j"
  by (cases j) (auto simp: mutate_row_def row_key_def grid_key_def split: prod.splits)

lemma impute_keys: "map row_key (impute rows) = map row_key rows"
  by (simp add: impute_def impute_median_income_def impute_pov_percent_minors_def
      impute_pov_percent_all_def row_key_def)

lemma arrange_eq: "arrange rows = sort_key row_key rows"
  by (simp add: arrange_def)

lemma build_df_key_set:
  "row_key ` set (build_df fs od pv ind) = set (expand_grid [2006..2018] fs)"
proof -
  have "row_key ` set (build_df fs od pv ind) =
        set (map row_key (impute (map mutate_row (joined fs od pv ind))))"
    by (simp add: build_df_def arrange_eq)
  also have "\<dots> = set (map row_key (map mutate_row (joined fs od pv ind)))"
    by (simp only: impute_keys)
  also have "\<dots> = grid_key ` set (joined fs od pv ind)"
    by (simp add: mutate_row_key image_image)
  finally show ?thesis by (simp add: joined_key_set study_years)
qed

lemma set_expand_grid: "set (expand_grid ys fs) = set ys \<times> set fs"
  by (auto simp: expand_grid_def)

lemma expand_grid_product: "expand_grid ys fs = List.product ys fs"
  by (simp add: expand_grid_def product_concat_map)

lemma rows_for_eq: "rows_for df y f = filter (\<lambda>r. row_key r = (y, f)) df"
  by (simp add: rows_for_def)

lemma length_rows_for_build_df:
  "length (rows_for (build_df fs od pv ind) y f) =
   length (filter (\<lambda>j. grid_key j = (y, f)) (joined fs od pv ind))"
proof -
  let ?J = "joined fs od pv ind"
  have "length (rows_for (build_df fs od pv ind) y f) =
        length (filter (\<lambda>r. row_key r = (y, f)) (impute (map mutate_row ?J)))"
    by (simp add: rows_for_eq build_df_def arrange_eq filter_sort)
  also have "\<dots> = length (filter (\<lambda>k. k = (y, f)) (map row_key (impute (map mutate_row ?J))))"
    by (simp add: filter_map comp_def)
  also have "\<dots> = length (filter (\<lambda>k. k = (y, f)) (map grid_key ?J))"
    by (simp only: impute_keys) (simp add: mutate_row_key comp_def)
  finally show ?thesis by (simp add: filter_map comp_def)
qed

lemma joined_unique_keys:
  assumes "distinct (map overdose_key od)"
    and "distinct (map poverty_key pv)"
    and "distinct (map industry_key ind)"
  shows "map grid_key (joined fs od pv ind) = expand_grid (TRAINING_YEARS @ [VALIDATION_YEAR]) fs"
proof -
  let ?g = "expand_grid (TRAINING_YEARS @ [VALIDATION_YEAR]) fs"
  let ?j1 = "left_join ?g (\<lambda>k r. overdose_key r = k) od"
  let ?j2 = "left_join ?j1 (\<lambda>j r. poverty_key r = fst j) pv"
  have j1: "map fst ?j1 = ?g"
    by (rule left_join_unique) (use distinct_key_filter [OF assms(1)] in blast)
  have j2: "map fst ?j2 = ?j1"
    by (rule left_join_unique) (use distinct_key_filter [OF assms(2)] in blast)
  have j3: "map fst (joined fs od pv ind) = ?j2"
    unfolding joined_def
    by (rule left_join_unique) (use distinct_key_filter [OF assms(3)] in blast)
  have "map grid_key (joined fs od pv ind) = map fst (map fst (map fst (joined fs od pv ind)))"
    by (simp add: grid_key_def comp_def)
  then show ?thesis by (simp only: j3 j2 j1)
qed

lemma count_in_distinct:
  assumes "distinct xs" "a \<in> set xs"
  shows "length (filter (\<lambda>k. k = a) xs) = 1"
  using assms by (induction xs) (auto simp: filter_empty_conv)

lemma count_in_grid:
  assumes "distinct ys" "distinct fs" "y \<in> set ys" "f \<in> set fs"
  shows "length (filter (\<lambda>k. k = (y, f)) (expand_grid ys fs)) = 1"
proof -
  have "distinct (List.product ys fs)" using assms by (intro distinct_product)
  moreover have "(y, f) \<in> set (List.product ys fs)" using assms by simp
  ultimately show ?thesis unfolding expand_grid_product by (rule count_in_distinct)
qed

text \<open>
  Claim C10, as the code has it. Every row of the data frame has a year from 2006 to
  2018, never the test year 2019, and a county of the adjacency-derived index; every
  such (year, county) combination has at least one row; the rows are sorted by
  (year, county). A combination has exactly one row when no table joined in holds
  two records with the same (year, county) key: a left join repeats the row once
  per matching record.
\<close>

theorem build_df_rows:
  "(\<forall>r \<in> set (build_df (fips_index edges) od pv ind).
       2006 \<le> year r \<and> year r \<le> 2018 \<and> year r \<noteq> TEST_YEAR \<and> fips r \<in> set (fips_index edges))
   \<and> (\<forall>y \<in> {2006..2018}. \<forall>f \<in> set (fips_index edges).
         1 \<le> length (rows_for (build_df (fips_index edges) od pv ind) y f))
   \<and> sorted (map row_key (build_df (fips_index edges) od pv ind))
   \<and> (distinct (map overdose_key od) \<and> distinct (map poverty_key pv)
        \<and> distinct (map industry_key ind) \<longrightarrow>
      (\<forall>y \<in> {2006..2018}. \<forall>f \<in> set (fips_index edges).
         length (rows_for (build_df (fips_index edges) od pv ind) y f) = 1))"
proof -
  let ?fs = "fips_index edges"
  let ?df = "build_df ?fs od pv ind"
  have keys: "row_key ` set ?df = {2006..2018} \<times> set ?fs"
    by (simp only: build_df_key_set set_expand_grid set_upto)
  have A: "\<forall>r \<in> set ?df. 2006 \<le> year r \<and> year r \<le> 2018 \<and> year r \<noteq> TEST_YEAR \<and> fips r \<in> set ?fs"
  proof
    fix r assume "r \<in> set ?df"
    then have "row_key r \<in> {2006..2018} \<times> set ?fs" using keys by blast
    then show "2006 \<le> year r \<and> year r \<le> 2018 \<and> year r \<noteq> TEST_YEAR \<and> fips r \<in> set ?fs"
      by (simp add: row_key_def TEST_YEAR_def)
  qed
  have B: "\<forall>y \<in> {2006..2018}. \<forall>f \<in> set ?fs. 1 \<le> length (rows_for ?df y f)"
  proof (intro ballI)
    fix y :: int and f :: string
    assume "y \<in> {2006..2018}" "f \<in> set ?fs"
    then have "(y, f) \<in> row_key ` set ?df" using keys by simp
    then obtain r where "r \<in> set ?df" "row_key r = (y, f)" by auto
    then have "r \<in> set (rows_for ?df y f)" by (simp add: rows_for_eq)
    then have "rows_for ?df y f \<noteq> []" by auto
    then show "1 \<le> length (rows_for ?df y f)" by (cases "rows_for ?df y f") auto
  qed
  have C: "sorted (map row_key ?df)"
    by (simp add: build_df_def arrange_def)
  have D: "distinct (map overdose_key od) \<and> distinct (map poverty_key pv)
        \<and> distinct (map industry_key ind) \<longrightarrow>
      (\<forall>y \<in> {2006..2018}. \<forall>f \<in> set ?fs. length (rows_for ?df y f) = 1)"
  proof (intro impI ballI)
    fix y :: int and f :: string
    assume u: "distinct (map overdose_key od) \<and> distinct (map poverty_key pv)
        \<and> distinct (map industry_key ind)"
      and y: "y \<in> {2006..2018}" and f: "f \<in> set ?fs"
    have g: "map grid_key (joined ?fs od pv ind) = expand_grid [2006..2018] ?fs"
      using joined_unique_keys [of od pv ind ?fs] u by (simp only: study_years)
    have "distinct [2006..2018::int]" by (rule distinct_upto)
    moreover have "distinct ?fs" by (simp add: fips_index_def distinct_unique)
    moreover have "y \<in> set [2006..2018]" using y by (simp only: set_upto)
    ultimately have "length (filter (\<lambda>k. k = (y, f)) (expand_grid [2006..2018] ?fs)) = 1"
      using f by (intro count_in_grid)
    then have "length (filter (\<lambda>k. k = (y, f)) (map grid_key (joined ?fs od pv ind))) = 1"
      by (simp only: g)
    then show "length (rows_for ?df y f) = 1"
      by (simp add: length_rows_for_build_df filter_map comp_def)
  qed
  from A B C D show ?thesis by blast
qed

text \<open>
  The statement above at two counties and an overdose table of one record.
\<close>

theorem build_df_rows_witness:
  "distinct (map overdose_key
       [\<lparr>od_year = 2018, od_fips = ''01001'', od_county = ''Autauga'', od_death_rate = Num 5\<rparr>])
   \<and> ''01001'' \<in> set (fips_index [(''01001'', ''01003''), (''01003'', ''01001'')])
   \<and> length
     (rows_for
        (build_df (fips_index [(''01001'', ''01003''), (''01003'', ''01001'')])
           [\<lparr>od_year = 2018, od_fips = ''01001'', od_county = ''Autauga'', od_death_rate = Num 5\<rparr>]
           [] [])
        2018 ''01001'')
     = 1
   \<and> sorted (map row_key
        (build_df (fips_index [(''01001'', ''01003''), (''01003'', ''01001'')])
           [\<lparr>od_year = 2018, od_fips = ''01001'', od_county = ''Autauga'', od_death_rate = Num 5\<rparr>]
           [] []))"
proof -
  let ?E = "[(''01001'', ''01003''), (''01003'', ''01001'')]"
  let ?od = "[\<lparr>od_year = 2018, od_fips = ''01001'', od_county = ''Autauga'', od_death_rate = Num 5\<rparr>]"
  have d: "distinct (map overdose_key ?od) \<and> distinct (map poverty_key [])
        \<and> distinct (map industry_key [])" by simp
  have f: "''01001'' \<in> set (fips_index ?E)" by code_simp
  have y: "(2018::int) \<in> {2006..2018}" by simp
  from build_df_rows [of ?E ?od "[]" "[]"] d f y show ?thesis by blast
qed

text \<open>
  Claim C10 as stated fails: with two overdose records for county 01001 in 2018, the
  data frame has two rows for that combination.
\<close>

theorem duplicate_key_counterexample:
  "length
     (rows_for
        (build_df (fips_index [(''01001'', ''01003''), (''01003'', ''01001'')])
           [\<lparr>od_year = 2018, od_fips = ''01001'', od_county = ''Autauga'', od_death_rate = Num 5\<rparr>,
            \<lparr>od_year = 2018, od_fips = ''01001'', od_county = ''Autauga'', od_death_rate = Num 6\<rparr>]
           [] [])
        2018 ''01001'')
   = 2"
  by code_simp

text \<open>
  Claim C8 as stated fails: when no county of state 01 has a \<open>pov_percent_all\<close>
  for 2006, the data frame is built all the same, and the row of county 01001 for
  2006 carries \<open>NaN\<close> in that column.
\<close>

theorem all_missing_group_counterexample:
  "map pov_percent_all
     (rows_for
        (build_df (fips_index [(''01001'', ''01003''), (''01003'', ''01001'')]) []
           [\<lparr>pv_year = 2006, pv_fips = ''01001'', pv_state = ''01'', pv_pov_percent_all = NA,
              pv_median_income = Num 40000, pv_pov_percent_minors = Num 12\<rparr>] [])
        2006 ''01001'')
   = [NaN]"
  by code_simp

section \<open>Residuals\<close>

lemma mutate_row_mask:
  "masked_death_rate (mutate_row j) =
     (if year (mutate_row j) = VALIDATION_YEAR then NA else death_rate (mutate_row j))"
  by (cases j) (auto simp: mutate_row_def split: prod.splits)

lemma impute_pointwise:
  assumes "\<forall>r \<in> set rows. masked_death_rate r = (if year r = VALIDATION_YEAR then NA else death_rate r)"
  shows "\<forall>r \<in> set (impute rows). masked_death_rate r = (if year r = VALIDATION_YEAR then NA else death_rate r)"
  using assms
  by (simp add: impute_def impute_median_income_def impute_pov_percent_minors_def
      impute_pov_percent_all_def)

lemma build_df_mask:
  "\<forall>r \<in> set (build_df fs od pv ind).
     masked_death_rate r = (if year r = VALIDATION_YEAR then NA else death_rate r)"
proof -
  have "\<forall>r \<in> set (map mutate_row (joined fs od pv ind)).
     masked_death_rate r = (if year r = VALIDATION_YEAR then NA else death_rate r)"
    using mutate_row_mask by auto
  then show ?thesis
    unfolding build_df_def arrange_def set_sort by (rule impute_pointwise)
qed

lemma cell_minus_is_na: "is_na (cell_minus c f) \<longleftrightarrow> is_na c"
  by (cases c) simp_all

lemma add_fit_rows:
  assumes "add_fit df fit = Inr rows" "x \<in> set rows"
  shows "row x \<in> set df \<and> residuals x = cell_minus (death_rate (row x)) (fitted x)"
proof (cases "length fit = length df")
  case True
  with assms have "x \<in> set (map2 fit_one df fit)" by (simp add: add_fit_def)
  then obtain r f where "(r, f) \<in> set (zip df fit)" "x = fit_one r f" by auto
  then show ?thesis by (auto simp: fit_one_def dest: set_zip_leftD)
next
  case False
  with assms have "x \<in> set (map (\<lambda>r. fit_one r (hd fit)) df)"
    by (auto simp: add_fit_def split: if_splits)
  then show ?thesis by (auto simp: fit_one_def)
qed

text \<open>
  Claim C2, as the code has it. The rows keep their order; the masked response of a
  row is missing exactly in the validation year and is the death rate otherwise; the
  residual of every row, held out or not, is the unmasked death rate minus the
  fitted value, so it is missing exactly when the death rate itself is missing.
\<close>

theorem residuals_use_unmasked_death_rate:
  assumes "add_fit (build_df fs od pv ind) fit = Inr rows"
  shows "map row rows = build_df fs od pv ind
       \<and> (\<forall>x \<in> set rows.
            masked_death_rate (row x) =
              (if year (row x) = VALIDATION_YEAR then NA else death_rate (row x))
          \<and> residuals x = cell_minus (death_rate (row x)) (fitted x)
          \<and> (is_na (residuals x) \<longleftrightarrow> is_na (death_rate (row x))))"
proof -
  have rows: "map row rows = build_df fs od pv ind"
  proof (cases "length fit = length (build_df fs od pv ind)")
    case True
    with assms have "rows = map2 fit_one (build_df fs od pv ind) fit" by (simp add: add_fit_def)
    then have "map row rows = map fst (zip (build_df fs od pv ind) fit)"
      by (simp add: fit_one_def comp_def case_prod_beta)
    with True show ?thesis by simp
  next
    case False
    with assms have "rows = map (\<lambda>r. fit_one r (hd fit)) (build_df fs od pv ind)"
      by (auto simp: add_fit_def split: if_splits)
    then show ?thesis by (simp add: fit_one_def comp_def)
  qed
  have "\<forall>x \<in> set rows.
            masked_death_rate (row x) =
              (if year (row x) = VALIDATION_YEAR then NA else death_rate (row x))
          \<and> residuals x = cell_minus (death_rate (row x)) (fitted x)
          \<and> (is_na (residuals x) \<longleftrightarrow> is_na (death_rate (row x)))"
  proof
    fix x assume x: "x \<in> set rows"
    from add_fit_rows [OF assms x]
    have r: "row x \<in> set (build_df fs od pv ind)"
      and res: "residuals x = cell_minus (death_rate (row x)) (fitted x)" by simp_all
    from r build_df_mask have "masked_death_rate (row x) =
              (if year (row x) = VALIDATION_YEAR then NA else death_rate (row x))" by blast
    with res show "masked_death_rate (row x) =
              (if year (row x) = VALIDATION_YEAR then NA else death_rate (row x))
          \<and> residuals x = cell_minus (death_rate (row x)) (fitted x)
          \<and> (is_na (residuals x) \<longleftrightarrow> is_na (death_rate (row x)))"
      by (simp add: cell_minus_is_na)
  qed
  with rows show ?thesis by blast
qed

text \<open>
  The statement above at two counties, one death rate of 5 observed in 2018 and
  fitted values of 3: row 24 is that validation row.
\<close>

theorem residuals_use_unmasked_death_rate_witness:
  "add_fit
     (build_df (fips_index [(''01001'', ''01003''), (''01003'', ''01001'')])
        [\<lparr>od_year = 2018, od_fips = ''01001'', od_county = ''Autauga'', od_death_rate = Num 5\<rparr>]
        [] [])
     (replicate 26 3)
   = Inr (projr (add_fit
     (build_df (fips_index [(''01001'', ''01003''), (''01003'', ''01001'')])
        [\<lparr>od_year = 2018, od_fips = ''01001'', od_county = ''Autauga'', od_death_rate = Num 5\<rparr>]
        [] [])
     (replicate 26 3)))
   \<and> year (row (projr (add_fit
     (build_df (fips_index [(''01001'', ''01003''), (''01003'', ''01001'')])
        [\<lparr>od_year = 2018, od_fips = ''01001'', od_county = ''Autauga'', od_death_rate = Num 5\<rparr>]
        [] [])
     (replicate 26 3)) ! 24)) = VALIDATION_YEAR
   \<and> masked_death_rate (row (projr (add_fit
     (build_df (fips_index [(''01001'', ''01003''), (''01003'', ''01001'')])
        [\<lparr>od_year = 2018, od_fips = ''01001'', od_county = ''Autauga'', od_death_rate = Num 5\<rparr>]
        [] [])
     (replicate 26 3)) ! 24)) = NA
   \<and> residuals (projr (add_fit
     (build_df (fips_index [(''01001'', ''01003''), (''01003'', ''01001'')])
        [\<lparr>od_year = 2018, od_fips = ''01001'', od_county = ''Autauga'', od_death_rate = Num 5\<rparr>]
        [] [])
     (replicate 26 3)) ! 24) = Num 2"
proof -
  let ?df = "build_df (fips_index [(''01001'', ''01003''), (''01003'', ''01001'')])
        [\<lparr>od_year = 2018, od_fips = ''01001'', od_county = ''Autauga'', od_death_rate = Num 5\<rparr>]
        [] []"
  let ?rows = "projr (add_fit ?df (replicate 26 3))"
  have h: "add_fit ?df (replicate 26 3) = Inr ?rows" by code_simp
  have len: "length ?rows = 26" by code_simp
  then have mem: "?rows ! 24 \<in> set ?rows" by simp
  have y: "year (row (?rows ! 24)) = VALIDATION_YEAR" by code_simp
  have d: "death_rate (row (?rows ! 24)) = Num 5" by code_simp
  have f: "fitted (?rows ! 24) = 3" by code_simp
  from residuals_use_unmasked_death_rate [OF h] mem
  have "masked_death_rate (row (?rows ! 24)) =
          (if year (row (?rows ! 24)) = VALIDATION_YEAR then NA else death_rate (row (?rows ! 24)))"
    and "residuals (?rows ! 24) = cell_minus (death_rate (row (?rows ! 24))) (fitted (?rows ! 24))"
    by blast+
  with y d f h show ?thesis by simp
qed

text \<open>
  Claim C2 as stated fails: the validation row of county 01001 is held out (its
  masked response is missing), and its residual is 5 - 3 = 2, not a missing value.
\<close>

theorem validation_residual_counterexample:
  "validation_report
     (add_fit
        (build_df (fips_index [(''01001'', ''01003''), (''01003'', ''01001'')])
           [\<lparr>od_year = 2018, od_fips = ''01001'', od_county = ''Autauga'', od_death_rate = Num 5\<rparr>]
           [] [])
        (replicate 26 3))
   = Inr [(''01001'', NA, Num 2), (''01003'', NA, NA)]"
  by code_simp

section \<open>The conditional prior at an isolated county\<close>

lemma sum_list_zero: "\<forall>x \<in> set xs. x = (0::'a::comm_monoid_add) \<Longrightarrow> sum_list xs = 0"
  by (induction xs) auto

lemma degree_zero_row:
  assumes "degree W k = 0"
  shows "\<forall>w \<in> set (W ! k). w = 0"
  using assms by (simp add: degree_def filter_empty_conv)

lemma isolated_sums:
  assumes "degree W k = 0"
  shows "weight_sum W k = 0" and "neighbour_sum W x k = 0"
proof -
  have z: "\<forall>w \<in> set (W ! k). w = 0" using assms by (rule degree_zero_row)
  then have "sum_list (W ! k) = 0" by (rule sum_list_zero)
  then show "weight_sum W k = 0" by (simp add: weight_sum_def)
  have "\<forall>v \<in> set (map2 (\<lambda>w v. of_int w * v) (W ! k) x). v = (0::rat)"
    using z by (auto dest: set_zip_leftD)
  then show "neighbour_sum W x k = 0"
    unfolding neighbour_sum_def by (rule sum_list_zero)
qed

text \<open>
  Claim C5. For a county with no neighbour and a smoothness parameter in [0, 1), the
  denominator \<open>rho * sum_j w_kj + 1 - rho\<close> of the conditional prior is
  \<open>1 - rho\<close>, which is positive, so nothing is divided by zero, and the
  conditional mean is 0, for the intercepts and for the slopes alike.
\<close>

theorem isolated_entity_conditional:
  assumes "k < length W" and "degree W k = 0" and "0 \<le> rho" and "rho < 1"
  shows "car_denominator rho W k = 1 - rho
       \<and> 0 < car_denominator rho W k
       \<and> phi_conditional rho tau2 W x k = Some (0, tau2 / (1 - rho))
       \<and> delta_conditional rho tau2 W x k = Some (0, tau2 / (1 - rho))"
proof -
  have den: "car_denominator rho W k = 1 - rho"
    using isolated_sums(1) [OF assms(2)] by (simp add: car_denominator_def)
  have pos: "0 < car_denominator rho W k" using den assms(4) by simp
  have "car_conditional rho tau2 W x k = Some (0, tau2 / (1 - rho))"
    using den pos isolated_sums(2) [OF assms(2)] by (simp add: car_conditional_def)
  with den pos show ?thesis by (simp add: phi_conditional_def delta_conditional_def)
qed

text \<open>
  The statement above at the middle county of three, which has no neighbour.
\<close>

theorem isolated_entity_conditional_witness:
  "(1::nat) < length [[0, 1, 0], [0, 0, 0], [0, 1, 0 :: int]]
   \<and> degree [[0, 1, 0], [0, 0, 0], [0, 1, 0]] 1 = 0
   \<and> car_denominator (1 / 2) [[0, 1, 0], [0, 0, 0], [0, 1, 0]] 1 = 1 / 2
   \<and> phi_conditional (1 / 2) 3 [[0, 1, 0], [0, 0, 0], [0, 1, 0]] [5, 7, 9] 1 = Some (0, 6)"
proof -
  let ?W = "[[0, 1, 0], [0, 0, 0], [0, 1, 0 :: int]]"
  have k: "(1::nat) < length ?W" by simp
  have d: "degree ?W 1 = 0" by (simp add: degree_def)
  have r: "(0::rat) \<le> 1 / 2" "(1 / 2 :: rat) < 1" by simp_all
  from isolated_entity_conditional [OF k d r, of 3 "[5, 7, 9]"] k d show ?thesis by simp
qed

section \<open>The time trend\<close>

lemma sum_affine:
  "sum_list (map (\<lambda>t. a * of_nat t + b) [1..<Suc N]) =
     a * (of_nat N * (of_nat N + 1) / 2) + of_nat N * (b::rat)"
proof (induction N)
  case 0
  then show ?case by simp
next
  case (Suc N)
  have "sum_list (map (\<lambda>t. a * of_nat t + b) [1..<Suc (Suc N)]) =
        sum_list (map (\<lambda>t. a * of_nat t + b) [1..<Suc N]) + (a * of_nat (Suc N) + b)"
    by simp
  also have "\<dots> = a * (of_nat N * (of_nat N + 1) / 2) + of_nat N * b + (a * of_nat (Suc N) + b)"
    by (simp only: Suc.IH)
  also have "\<dots> = a * (of_nat (Suc N) * (of_nat (Suc N) + 1) / 2) + of_nat (Suc N) * b"
    by (simp add: field_simps)
  finally show ?case .
qed

lemma sum_time_indices: "sum_list (map of_nat [1..<Suc N]) = (of_nat N * (of_nat N + 1) / 2 :: rat)"
  using sum_affine [of 1 0 N] by (simp del: upt_Suc)

lemma t_bar_closed:
  assumes "0 < N"
  shows "t_bar N = (of_nat N + 1) / 2"
proof -
  have "t_bar N = (1 / of_nat N) * (of_nat N * (of_nat N + 1) / 2)"
    unfolding t_bar_def by (simp only: sum_time_indices)
  then show ?thesis using assms by simp
qed

lemma t_star_closed: "0 < N \<Longrightarrow> t_star N t = (of_nat t - (of_nat N + 1) / 2) / of_nat N"
  by (simp only: t_star_def t_bar_closed)

lemma sum_t_star:
  assumes "0 < N"
  shows "sum_list (map (t_star N) [1..<Suc N]) = 0"
proof -
  have "t_star N = (\<lambda>t. (1 / of_nat N) * of_nat t + (- ((of_nat N + 1) / 2) / of_nat N))"
    using assms by (intro ext) (simp only: t_star_closed, simp add: field_simps)
  then have "sum_list (map (t_star N) [1..<Suc N]) =
        (1 / of_nat N) * (of_nat N * (of_nat N + 1) / 2)
          + of_nat N * (- ((of_nat N + 1) / 2) / of_nat N)"
    by (simp only: sum_affine)
  also have "\<dots> = 0" using assms by simp
  finally show ?thesis .
qed

lemma t_star_bounds:
  assumes "0 < N" "1 \<le> t" "t \<le> N"
  shows "- (1 / 2) < t_star N t \<and> t_star N t < 1 / 2"
proof -
  have n: "(0::rat) < of_nat N" using assms by simp
  have lo: "(1::rat) \<le> of_nat t" using assms by simp
  have hi: "(of_nat t :: rat) \<le> of_nat N" using assms by simp
  have "t_star N t = (of_nat t - (of_nat N + 1) / 2) / of_nat N"
    using assms(1) by (rule t_star_closed)
  moreover have "- (1 / 2) < (of_nat t - (of_nat N + 1) / 2) / (of_nat N :: rat)"
    using n lo by (simp add: field_simps)
  moreover have "(of_nat t - (of_nat N + 1) / 2) / (of_nat N :: rat) < 1 / 2"
    using n hi by (simp add: field_simps)
  ultimately show ?thesis by simp
qed

text \<open>
  The trend values fill an interval of length \<open>(N - 1) / N\<close>: the divisor is the
  number of years, not the difference between the last and the first.
\<close>

lemma trend_width: "0 < N \<Longrightarrow> t_star N N - t_star N 1 = (of_nat N - 1) / of_nat N"
  by (simp only: t_star_closed) (simp add: field_simps)

lemma index_of_upto:
  "a \<le> y \<Longrightarrow> y \<le> b \<Longrightarrow> index_of [a..b] y = Some (nat (y - a))"
proof (induction a b rule: upto.induct)
  case (1 i j)
  from "1.prems" have ij: "i \<le> j" by simp
  then have unfold: "[i..j] = i # [i + 1..j]" by (simp add: upto_rec1)
  show ?case
  proof (cases "y = i")
    case True
    then show ?thesis by (simp add: unfold)
  next
    case False
    with "1.prems" have lo: "i + 1 \<le> y" by simp
    from "1.IH" [OF ij lo "1.prems"(2)]
    have "index_of [i + 1..j] y = Some (nat (y - (i + 1)))" .
    moreover have "Suc (nat (y - (i + 1))) = nat (y - i)" using lo by simp
    ultimately show ?thesis using False by (simp add: unfold)
  qed
qed

lemma data_years_upto: "data_years = [2006..2018]"
  by (simp only: data_years_def study_years)

lemma N_years_13: "N_years = 13"
  by (simp add: N_years_def data_years_upto)

lemma time_index_of_year:
  assumes "2006 \<le> y" "y \<le> 2018"
  shows "time_index y = Some (nat (y - 2005))"
proof -
  have "index_of [2006..2018] y = Some (nat (y - 2006))"
    using assms by (rule index_of_upto)
  moreover have "Suc (nat (y - 2006)) = nat (y - 2005)" using assms by simp
  ultimately show ?thesis by (simp only: time_index_def data_years_upto option.map)
qed

lemma t_star_of_year:
  assumes "2006 \<le> y" "y \<le> 2018"
  shows "t_star 13 (nat (y - 2005)) = (of_int y - 2012) / 13"
proof -
  have "(of_nat (nat (y - 2005)) :: rat) = of_int y - 2005" using assms by simp
  moreover have "t_star 13 t = (of_nat t - 7) / 13" for t
    using t_star_closed [of 13 t] by simp
  ultimately show ?thesis by simp
qed

lemma build_df_years:
  assumes "r \<in> set (build_df fs od pv ind)"
  shows "2006 \<le> year r \<and> year r \<le> 2018"
proof -
  have "row_key r \<in> set (expand_grid [2006..2018] fs)"
    using assms build_df_key_set by blast
  then have "row_key r \<in> {2006..2018} \<times> set fs" by (simp only: set_expand_grid set_upto)
  then show ?thesis by (simp add: row_key_def)
qed

text \<open>
  Claim C6, as the code has it. The trend is computed once from the whole set of time
  indices \<open>1, ..., N\<close>: \<open>t_star = (t - mean) / N\<close>, the divisor being the
  number of time indices and not their span. The values are centred (they sum to 0),
  lie strictly between -1/2 and 1/2 and fill an interval of length \<open>(N - 1) / N\<close>.
  This one value is the time term of the linear predictor, whatever the covariates
  and the parameters, and the fitted value at it is that predictor. The data have
  \<open>N = 13\<close> years; a row of year \<open>y\<close> has index \<open>y - 2005\<close> and
  trend value \<open>(y - 2012) / 13\<close>.
\<close>

theorem trend_divides_by_number_of_years:
  assumes "0 < N"
  shows "t_bar N = mean_of (time_indices N)
       \<and> length (time_indices N) = N
       \<and> (\<forall>t. t_star N t =
              (of_nat t - mean_of (time_indices N)) / of_nat (length (time_indices N)))
       \<and> sum_list (map (t_star N) [1..<Suc N]) = 0
       \<and> (\<forall>t \<in> {1..N}. - (1 / 2) < t_star N t \<and> t_star N t < 1 / 2)
       \<and> t_star N N - t_star N 1 = (of_nat N - 1) / of_nat N
       \<and> (\<forall>t. linear_predictor x b b1 p a d N t =
              covariate_term x b + b1 + p + (a + d) * t_star N t)
       \<and> (\<forall>t. fitted_value (covariate_term x b) b1 p a d (t_star N t) =
              linear_predictor x b b1 p a d N t)
       \<and> N_years = 13
       \<and> (\<forall>r \<in> set (build_df fs od pv ind).
              time_index (year r) = Some (nat (year r - 2005))
            \<and> row_t_star r = Some ((of_int (year r) - 2012) / 13))"
proof -
  have m: "t_bar N = mean_of (time_indices N)"
    by (simp add: t_bar_def mean_of_def time_indices_def)
  have l: "length (time_indices N) = N" by (simp add: time_indices_def)
  have s: "\<forall>t. t_star N t =
              (of_nat t - mean_of (time_indices N)) / of_nat (length (time_indices N))"
    by (simp only: l) (simp add: t_star_def m)
  have c: "sum_list (map (t_star N) [1..<Suc N]) = 0" using assms by (rule sum_t_star)
  have bd: "\<forall>t \<in> {1..N}. - (1 / 2) < t_star N t \<and> t_star N t < 1 / 2"
    using t_star_bounds [OF assms] by simp
  have w: "t_star N N - t_star N 1 = (of_nat N - 1) / of_nat N" using assms by (rule trend_width)
  have lp: "\<forall>t. linear_predictor x b b1 p a d N t =
              covariate_term x b + b1 + p + (a + d) * t_star N t"
    by (simp add: linear_predictor_def psi_def)
  have fv: "\<forall>t. fitted_value (covariate_term x b) b1 p a d (t_star N t) =
              linear_predictor x b b1 p a d N t"
    by (simp add: fitted_value_def linear_predictor_def psi_def)
  have rows: "\<forall>r \<in> set (build_df fs od pv ind).
              time_index (year r) = Some (nat (year r - 2005))
            \<and> row_t_star r = Some ((of_int (year r) - 2012) / 13)"
  proof
    fix r assume "r \<in> set (build_df fs od pv ind)"
    then have y: "2006 \<le> year r" "year r \<le> 2018" using build_df_years by blast+
    have ti: "time_index (year r) = Some (nat (year r - 2005))"
      using y by (rule time_index_of_year)
    have "row_t_star r = Some (t_star 13 (nat (year r - 2005)))"
      by (simp only: row_t_star_def ti N_years_13 option.map)
    with ti show "time_index (year r) = Some (nat (year r - 2005))
            \<and> row_t_star r = Some ((of_int (year r) - 2012) / 13)"
      by (simp only: t_star_of_year [OF y])
  qed
  from m l s c bd w lp fv N_years_13 rows show ?thesis by blast
qed

text \<open>
  The statement above at the 13 years of the data and at the last row of a data frame
  of two counties, a row of 2018.
\<close>

theorem trend_divides_by_number_of_years_witness:
  "(0::nat) < 13
   \<and> t_bar 13 = 7
   \<and> t_star 13 1 = - (6 / 13)
   \<and> t_star 13 13 = 6 / 13
   \<and> t_star 13 13 - t_star 13 1 = 12 / 13
   \<and> sum_list (map (t_star 13) [1..<Suc 13]) = 0
   \<and> year (build_df (fips_index [(''01001'', ''01003''), (''01003'', ''01001'')]) [] [] [] ! 25) = 2018
   \<and> row_t_star (build_df (fips_index [(''01001'', ''01003''), (''01003'', ''01001'')]) [] [] [] ! 25)
       = Some (6 / 13)"
proof -
  let ?df = "build_df (fips_index [(''01001'', ''01003''), (''01003'', ''01001'')]) [] [] []"
  have n: "(0::nat) < 13" by simp
  have a: "t_bar 13 = 7" by code_simp
  have b: "t_star 13 1 = - (6 / 13)" by code_simp
  have c: "t_star 13 13 = 6 / 13" by code_simp
  have len: "length ?df = 26" by code_simp
  then have mem: "?df ! 25 \<in> set ?df" by simp
  have y: "year (?df ! 25) = 2018" by code_simp
  from trend_divides_by_number_of_years [OF n, of "[]" "[]" 0 0 0 0
      "fips_index [(''01001'', ''01003''), (''01003'', ''01001'')]" "[]" "[]" "[]"]
  have w: "t_star 13 13 - t_star 13 1 = (of_nat 13 - 1) / of_nat 13"
    and s: "sum_list (map (t_star 13) [1..<Suc 13]) = 0"
    and r: "\<forall>r \<in> set ?df. row_t_star r = Some ((of_int (year r) - 2012) / 13)"
    by blast+
  from r mem y have "row_t_star (?df ! 25) = Some (6 / 13)" by simp
  with n a b c w s y show ?thesis by simp
qed

text \<open>
  Claim C6 as stated fails: for the last of the 13 years the trend value of the model
  is 6/13, while \<open>(t - mean(t)) / span(t)\<close> is (13 - 7) / 12 = 1/2.
\<close>

theorem trend_span_counterexample:
  "N_years = 13
   \<and> t_star N_years 13 = 6 / 13
   \<and> spec_t_star (time_indices N_years) 13 = 1 / 2
   \<and> t_star N_years 13 \<noteq> spec_t_star (time_indices N_years) 13"
  by code_simp

section \<open>The sampler engine: schedule and bounds\<close>

lemma sweep_valid:
  assumes "sweep d s = Inr s'"
    and "0 \<le> rho_int s" "rho_int s < 1" "0 \<le> rho_slo s" "rho_slo s < 1"
  shows "valid_state s'"
proof -
  from assms(1) have pos: "0 < tau2_int_draw d" "0 < tau2_slo_draw d" "0 < nu2_draw d"
    by (auto simp: sweep_def Let_def split: if_splits)
  from assms(1) pos have s': "tau2_int s' = tau2_int_draw d" "tau2_slo s' = tau2_slo_draw d"
    "nu2 s' = nu2_draw d"
    "rho_int s' = metropolis_rho (rho_int s) (rho_int_proposal d) (rho_int_accept d)"
    "rho_slo s' = metropolis_rho (rho_slo s) (rho_slo_proposal d) (rho_slo_accept d)"
    by (auto simp: sweep_def Let_def split: if_splits)
  have m: "0 \<le> metropolis_rho cur p a \<and> metropolis_rho cur p a < 1"
    if "0 \<le> cur" "cur < 1" for cur p a
    using that by (auto simp: metropolis_rho_def)
  show ?thesis
    unfolding valid_state_def s' using pos m [OF assms(2,3)] m [OF assms(4,5)] by simp
qed

lemma sweep_succeeds:
  assumes "draws_positive d"
  shows "\<exists>s'. sweep d s = Inr s'"
  using assms by (simp add: sweep_def draws_positive_def Let_def)

lemma iterate_samples_valid:
  assumes "valid_state s" and "\<forall>p \<in> set acc. valid_state (snd p)"
  shows "\<forall>p \<in> set (samples (iterate c ds i n s acc)). valid_state (snd p)"
  using assms
proof (induction n arbitrary: i s acc)
  case 0
  then show ?case by simp
next
  case (Suc n)
  show ?case
  proof (cases "sweep (ds (Suc i)) s")
    case (Inl name)
    with Suc.prems show ?thesis by simp
  next
    case (Inr s')
    have v: "valid_state s'"
      using sweep_valid [OF Inr] Suc.prems(1) by (simp add: valid_state_def)
    let ?acc = "if retained c (Suc i) then acc @ [(Suc i, s')] else acc"
    have "\<forall>p \<in> set ?acc. valid_state (snd p)" using v Suc.prems(2) by simp
    from Suc.IH [OF v this] Inr show ?thesis by simp
  qed
qed

lemma iterate_completed:
  assumes "outcome (iterate c ds i n s acc) = None"
  shows "iterations (iterate c ds i n s acc) = i + n
       \<and> map fst (samples (iterate c ds i n s acc)) =
           map fst acc @ filter (retained c) [Suc i..<Suc (i + n)]"
  using assms
proof (induction n arbitrary: i s acc)
  case 0
  then show ?case by simp
next
  case (Suc n)
  show ?case
  proof (cases "sweep (ds (Suc i)) s")
    case (Inl name)
    with Suc.prems show ?thesis by simp
  next
    case (Inr s')
    let ?acc = "if retained c (Suc i) then acc @ [(Suc i, s')] else acc"
    have eq: "iterate c ds i (Suc n) s acc = iterate c ds (Suc i) n s' ?acc"
      using Inr by simp
    with Suc.prems have "outcome (iterate c ds (Suc i) n s' ?acc) = None" by simp
    from Suc.IH [OF this]
    have it: "iterations (iterate c ds (Suc i) n s' ?acc) = Suc i + n"
      and sm: "map fst (samples (iterate c ds (Suc i) n s' ?acc)) =
                 map fst ?acc @ filter (retained c) [Suc (Suc i)..<Suc (Suc i + n)]"
      by simp_all
    have split: "[Suc i..<Suc (i + Suc n)] = Suc i # [Suc (Suc i)..<Suc (Suc i + n)]"
      by (simp add: upt_conv_Cons)
    have "map fst ?acc @ filter (retained c) [Suc (Suc i)..<Suc (Suc i + n)] =
          map fst acc @ filter (retained c) [Suc i..<Suc (i + Suc n)]"
      unfolding split by simp
    with it sm show ?thesis unfolding eq by simp
  qed
qed

lemma iterate_no_error:
  assumes "\<forall>j \<in> {Suc i..i + n}. draws_positive (ds j)"
  shows "outcome (iterate c ds i n s acc) = None"
  using assms
proof (induction n arbitrary: i s acc)
  case 0
  then show ?case by simp
next
  case (Suc n)
  have "draws_positive (ds (Suc i))" using Suc.prems by simp
  then obtain s' where s': "sweep (ds (Suc i)) s = Inr s'" using sweep_succeeds by blast
  have "\<forall>j \<in> {Suc (Suc i)..Suc i + n}. draws_positive (ds j)" using Suc.prems by simp
  from Suc.IH [OF this] s' show ?case by simp
qed

lemma count_multiples:
  assumes "0 < T"
  shows "length (filter (\<lambda>j. j mod T = 0) [1..<Suc S]) = S div T"
proof (induction S)
  case 0
  then show ?case by simp
next
  case (Suc S)
  have "length (filter (\<lambda>j. j mod T = 0) [1..<Suc (Suc S)]) =
        length (filter (\<lambda>j. j mod T = 0) [1..<Suc S]) + (if Suc S mod T = 0 then 1 else 0)"
    by simp
  also have "\<dots> = S div T + (if Suc S mod T = 0 then 1 else 0)"
    by (simp only: Suc.IH)
  also have "\<dots> = Suc S div T" by (simp add: div_Suc)
  finally show ?case .
qed

lemma upt_shift: "[1..<Suc (B + S)] = [1..<Suc B] @ map (\<lambda>j. B + j) [1..<Suc S]"
  by (induction S) simp_all

lemma retained_after_burn_in: "retained c i \<Longrightarrow> burn_in c < int i"
  by (simp add: retained_def)

lemma retained_shifted:
  assumes "burn_in c = int B" "thin c = int T" "1 \<le> j"
  shows "retained c (B + j) \<longleftrightarrow> j mod T = 0"
proof -
  have "retained c (B + j) \<longleftrightarrow> int B < int (B + j) \<and> (int (B + j) - int B) mod int T = 0"
    unfolding retained_def assms(1,2) by simp
  also have "\<dots> \<longleftrightarrow> int j mod int T = 0" using assms(3) by simp
  also have "\<dots> \<longleftrightarrow> int (j mod T) = 0" by (simp only: zmod_int)
  also have "\<dots> \<longleftrightarrow> j mod T = 0" by simp
  finally show ?thesis .
qed

lemma retained_indices:
  assumes "config_ok c"
  shows "filter (retained c) [1..<Suc (N_total c)] =
           map (\<lambda>j. nat (burn_in c) + j)
             (filter (\<lambda>j. j mod nat (thin c) = 0) [1..<Suc (nat (n_sample c))])"
proof -
  define B S T where "B = nat (burn_in c)" and "S = nat (n_sample c)" and "T = nat (thin c)"
  from assms have b: "burn_in c = int B" and s: "n_sample c = int S" and t: "thin c = int T"
    by (simp_all add: config_ok_def B_def S_def T_def)
  have N: "N_total c = B + S" unfolding N_total_def b s by (simp add: nat_add_distrib)
  have early: "filter (retained c) [1..<Suc B] = []"
    unfolding retained_def b by (auto simp: filter_empty_conv simp del: upt_Suc)
  have "filter (retained c \<circ> (\<lambda>j. B + j)) [1..<Suc S] = filter (\<lambda>j. j mod T = 0) [1..<Suc S]"
    using retained_shifted [OF b t] by (intro filter_cong) (auto simp del: upt_Suc)
  then have late: "filter (retained c) (map (\<lambda>j. B + j) [1..<Suc S]) =
        map (\<lambda>j. B + j) (filter (\<lambda>j. j mod T = 0) [1..<Suc S])"
    by (simp only: filter_map)
  have "filter (retained c) [1..<Suc (N_total c)] =
        map (\<lambda>j. B + j) (filter (\<lambda>j. j mod T = 0) [1..<Suc S])"
    unfolding N upt_shift filter_append early late by simp
  then show ?thesis unfolding B_def S_def T_def .
qed

lemma retained_count:
  assumes "config_ok c"
  shows "length (filter (retained c) [1..<Suc (N_total c)]) = nat (n_sample c div thin c)"
proof -
  from assms have T: "0 < nat (thin c)" and s: "0 \<le> n_sample c" and t: "0 \<le> thin c"
    by (simp_all add: config_ok_def)
  have "length (filter (retained c) [1..<Suc (N_total c)]) = nat (n_sample c) div nat (thin c)"
    unfolding retained_indices [OF assms] length_map by (rule count_multiples [OF T])
  also have "\<dots> = nat (n_sample c div thin c)" using s t by (simp add: nat_div_distrib)
  finally show ?thesis .
qed

text \<open>
  Claim C3, on the engine as specified. A configuration that violates the check, in
  particular one whose \<open>thin\<close> does not divide \<open>n_sample\<close>, ends the run with a
  configuration error before any iteration: no iteration is counted and no sample is
  stored. A valid configuration whose sweeps all draw positive variances runs to the
  end, and a run that reaches the end has executed \<open>burn_in + n_sample\<close>
  iterations, has retained exactly the iterations after the burn-in whose distance
  from it is a multiple of \<open>thin\<close>, and so holds \<open>n_sample / thin\<close> samples.
\<close>

theorem sampler_schedule:
  "(\<not> config_ok c \<longrightarrow>
      run_chain c ds init = \<lparr>outcome = Some ConfigurationError, iterations = 0, samples = []\<rparr>)
   \<and> (n_sample c mod thin c \<noteq> 0 \<longrightarrow>
      run_chain c ds init = \<lparr>outcome = Some ConfigurationError, iterations = 0, samples = []\<rparr>)
   \<and> (config_ok c \<and> (\<forall>i \<in> {1..N_total c}. draws_positive (ds i)) \<longrightarrow>
      outcome (run_chain c ds init) = None)
   \<and> (config_ok c \<and> outcome (run_chain c ds init) = None \<longrightarrow>
        iterations (run_chain c ds init) = nat (burn_in c + n_sample c)
      \<and> map fst (samples (run_chain c ds init)) =
          filter (retained c) [1..<Suc (nat (burn_in c + n_sample c))]
      \<and> (\<forall>i \<in> set (map fst (samples (run_chain c ds init))). burn_in c < int i)
      \<and> length (samples (run_chain c ds init)) = nat (n_sample c div thin c))"
proof -
  have A: "\<not> config_ok c \<longrightarrow>
      run_chain c ds init = \<lparr>outcome = Some ConfigurationError, iterations = 0, samples = []\<rparr>"
    by (simp add: run_chain_def)
  have B: "n_sample c mod thin c \<noteq> 0 \<longrightarrow>
      run_chain c ds init = \<lparr>outcome = Some ConfigurationError, iterations = 0, samples = []\<rparr>"
    by (simp add: run_chain_def config_ok_def)
  have C: "config_ok c \<and> (\<forall>i \<in> {1..N_total c}. draws_positive (ds i)) \<longrightarrow>
      outcome (run_chain c ds init) = None"
  proof
    assume h: "config_ok c \<and> (\<forall>i \<in> {1..N_total c}. draws_positive (ds i))"
    then have "\<forall>j \<in> {Suc 0..0 + N_total c}. draws_positive (ds j)" by simp
    then have "outcome (iterate c ds 0 (N_total c) init []) = None" by (rule iterate_no_error)
    with h show "outcome (run_chain c ds init) = None" by (simp add: run_chain_def)
  qed
  have D: "config_ok c \<and> outcome (run_chain c ds init) = None \<longrightarrow>
        iterations (run_chain c ds init) = nat (burn_in c + n_sample c)
      \<and> map fst (samples (run_chain c ds init)) =
          filter (retained c) [1..<Suc (nat (burn_in c + n_sample c))]
      \<and> (\<forall>i \<in> set (map fst (samples (run_chain c ds init))). burn_in c < int i)
      \<and> length (samples (run_chain c ds init)) = nat (n_sample c div thin c)"
  proof
    assume h: "config_ok c \<and> outcome (run_chain c ds init) = None"
    then have ok: "config_ok c" and run: "run_chain c ds init = iterate c ds 0 (N_total c) init []"
      by (simp_all add: run_chain_def)
    from h run have "outcome (iterate c ds 0 (N_total c) init []) = None" by simp
    from iterate_completed [OF this]
    have it: "iterations (run_chain c ds init) = N_total c"
      and sm: "map fst (samples (run_chain c ds init)) = filter (retained c) [1..<Suc (N_total c)]"
      unfolding run by simp_all
    have "\<forall>i \<in> set (map fst (samples (run_chain c ds init))). burn_in c < int i"
      unfolding sm using retained_after_burn_in by simp
    moreover have "length (samples (run_chain c ds init)) = nat (n_sample c div thin c)"
      using retained_count [OF ok] sm by (metis length_map)
    ultimately show "iterations (run_chain c ds init) = nat (burn_in c + n_sample c)
      \<and> map fst (samples (run_chain c ds init)) =
          filter (retained c) [1..<Suc (nat (burn_in c + n_sample c))]
      \<and> (\<forall>i \<in> set (map fst (samples (run_chain c ds init))). burn_in c < int i)
      \<and> length (samples (run_chain c ds init)) = nat (n_sample c div thin c)"
      using it sm by (simp add: N_total_def)
  qed
  from A B C D show ?thesis by blast
qed

text \<open>
  The statement above at a burn-in of 2, 4 sampling iterations and a thinning of 2,
  which retains iterations 4 and 6, and at a thinning of 3, which is refused.
\<close>

theorem sampler_schedule_witness:
  "config_ok \<lparr>burn_in = 2, n_sample = 4, thin = 2\<rparr>
   \<and> outcome (run_chain \<lparr>burn_in = 2, n_sample = 4, thin = 2\<rparr>
        (\<lambda>i. \<lparr>beta_draw = [1], phi_draw = [1, 3], delta_draw = [0, 2], alpha_draw = 0,
               tau2_int_draw = 1, tau2_slo_draw = 2, rho_int_proposal = 1 / 2,
               rho_int_accept = True, rho_slo_proposal = 3 / 2, rho_slo_accept = True,
               nu2_draw = 1\<rparr>)
        \<lparr>beta = [0], phi = [0, 0], delta = [0, 0], tau2_int = 1, tau2_slo = 1,
          rho_int = 0, rho_slo = 0, alpha = 0, nu2 = 1\<rparr>) = None
   \<and> iterations (run_chain \<lparr>burn_in = 2, n_sample = 4, thin = 2\<rparr>
        (\<lambda>i. \<lparr>beta_draw = [1], phi_draw = [1, 3], delta_draw = [0, 2], alpha_draw = 0,
               tau2_int_draw = 1, tau2_slo_draw = 2, rho_int_proposal = 1 / 2,
               rho_int_accept = True, rho_slo_proposal = 3 / 2, rho_slo_accept = True,
               nu2_draw = 1\<rparr>)
        \<lparr>beta = [0], phi = [0, 0], delta = [0, 0], tau2_int = 1, tau2_slo = 1,
          rho_int = 0, rho_slo = 0, alpha = 0, nu2 = 1\<rparr>) = 6
   \<and> map fst (samples (run_chain \<lparr>burn_in = 2, n_sample = 4, thin = 2\<rparr>
        (\<lambda>i. \<lparr>beta_draw = [1], phi_draw = [1, 3], delta_draw = [0, 2], alpha_draw = 0,
               tau2_int_draw = 1, tau2_slo_draw = 2, rho_int_proposal = 1 / 2,
               rho_int_accept = True, rho_slo_proposal = 3 / 2, rho_slo_accept = True,
               nu2_draw = 1\<rparr>)
        \<lparr>beta = [0], phi = [0, 0], delta = [0, 0], tau2_int = 1, tau2_slo = 1,
          rho_int = 0, rho_slo = 0, alpha = 0, nu2 = 1\<rparr>)) = [4, 6]
   \<and> n_sample \<lparr>burn_in = 2, n_sample = 4, thin = 3\<rparr> mod thin \<lparr>burn_in = 2, n_sample = 4, thin = 3\<rparr> \<noteq> 0
   \<and> run_chain \<lparr>burn_in = 2, n_sample = 4, thin = 3\<rparr>
        (\<lambda>i. \<lparr>beta_draw = [1], phi_draw = [1, 3], delta_draw = [0, 2], alpha_draw = 0,
               tau2_int_draw = 1, tau2_slo_draw = 2, rho_int_proposal = 1 / 2,
               rho_int_accept = True, rho_slo_proposal = 3 / 2, rho_slo_accept = True,
               nu2_draw = 1\<rparr>)
        \<lparr>beta = [0], phi = [0, 0], delta = [0, 0], tau2_int = 1, tau2_slo = 1,
          rho_int = 0, rho_slo = 0, alpha = 0, nu2 = 1\<rparr>
      = \<lparr>outcome = Some ConfigurationError, iterations = 0, samples = []\<rparr>"
proof -
  let ?c = "\<lparr>burn_in = 2, n_sample = 4, thin = 2\<rparr>"
  let ?c' = "\<lparr>burn_in = 2, n_sample = 4, thin = 3\<rparr>"
  let ?d = "\<lparr>beta_draw = [1], phi_draw = [1, 3], delta_draw = [0, 2], alpha_draw = 0,
               tau2_int_draw = 1, tau2_slo_draw = 2, rho_int_proposal = 1 / 2,
               rho_int_accept = True, rho_slo_proposal = 3 / 2, rho_slo_accept = True,
               nu2_draw = 1\<rparr>"
  let ?ds = "\<lambda>i::nat. ?d"
  let ?s = "\<lparr>beta = [0], phi = [0, 0], delta = [0, 0], tau2_int = 1, tau2_slo = 1,
          rho_int = 0, rho_slo = 0, alpha = 0, nu2 = 1\<rparr>"
  have ok: "config_ok ?c" by (simp add: config_ok_def)
  have pos: "\<forall>i \<in> {1..N_total ?c}. draws_positive (?ds i)" by (simp add: draws_positive_def)
  have bad: "n_sample ?c' mod thin ?c' \<noteq> 0" by simp
  have idx: "filter (retained ?c) [1..<Suc (nat (burn_in ?c + n_sample ?c))] = [4, 6]"
    by code_simp
  from sampler_schedule [of ?c ?ds ?s] ok pos
  have none: "outcome (run_chain ?c ?ds ?s) = None" by blast
  from sampler_schedule [of ?c ?ds ?s] ok none
  have "iterations (run_chain ?c ?ds ?s) = nat (burn_in ?c + n_sample ?c)"
    and "map fst (samples (run_chain ?c ?ds ?s)) =
          filter (retained ?c) [1..<Suc (nat (burn_in ?c + n_sample ?c))]"
    by blast+
  moreover from sampler_schedule [of ?c' ?ds ?s] bad
  have "run_chain ?c' ?ds ?s = \<lparr>outcome = Some ConfigurationError, iterations = 0, samples = []\<rparr>"
    by blast
  ultimately show ?thesis using ok none idx by simp
qed

text \<open>
  Claim C4, on the engine as specified. Starting from a parameter state within the
  bounds, every sample a run stores has its three variances above 0 and its two
  smoothness parameters in [0, 1), whether the run reaches the end or is aborted.
\<close>

theorem retained_samples_within_bounds:
  assumes "valid_state init"
  shows "\<forall>p \<in> set (samples (run_chain c ds init)).
           0 < tau2_int (snd p) \<and> 0 < tau2_slo (snd p) \<and> 0 < nu2 (snd p)
         \<and> 0 \<le> rho_int (snd p) \<and> rho_int (snd p) < 1
         \<and> 0 \<le> rho_slo (snd p) \<and> rho_slo (snd p) < 1"
proof (cases "config_ok c")
  case True
  have "\<forall>p \<in> set (samples (iterate c ds 0 (N_total c) init [])). valid_state (snd p)"
    using assms by (intro iterate_samples_valid) simp_all
  with True show ?thesis by (simp add: run_chain_def valid_state_def)
next
  case False
  then show ?thesis by (simp add: run_chain_def)
qed

text \<open>
  The statement above at a run of three iterations that retains the third; the
  proposal 3/2 for the smoothness of the slopes is rejected.
\<close>

theorem retained_samples_within_bounds_witness:
  "valid_state \<lparr>beta = [0], phi = [0, 0], delta = [0, 0], tau2_int = 1, tau2_slo = 1,
          rho_int = 0, rho_slo = 0, alpha = 0, nu2 = 1\<rparr>
   \<and> samples (run_chain \<lparr>burn_in = 1, n_sample = 2, thin = 2\<rparr>
        (\<lambda>i. \<lparr>beta_draw = [1], phi_draw = [1, 3], delta_draw = [0, 2], alpha_draw = 0,
               tau2_int_draw = 1, tau2_slo_draw = 2, rho_int_proposal = 1 / 2,
               rho_int_accept = True, rho_slo_proposal = 3 / 2, rho_slo_accept = True,
               nu2_draw = 1\<rparr>)
        \<lparr>beta = [0], phi = [0, 0], delta = [0, 0], tau2_int = 1, tau2_slo = 1,
          rho_int = 0, rho_slo = 0, alpha = 0, nu2 = 1\<rparr>)
      = [(3, \<lparr>beta = [1], phi = [- 1, 1], delta = [- 1, 1], tau2_int = 1, tau2_slo = 2,
               rho_int = 1 / 2, rho_slo = 0, alpha = 0, nu2 = 1\<rparr>)]
   \<and> 0 \<le> rho_slo \<lparr>beta = [1], phi = [- 1, 1], delta = [- 1, 1], tau2_int = 1, tau2_slo = 2,
               rho_int = 1 / 2, rho_slo = 0, alpha = 0, nu2 = 1\<rparr>
   \<and> rho_int \<lparr>beta = [1], phi = [- 1, 1], delta = [- 1, 1], tau2_int = 1, tau2_slo = 2,
               rho_int = 1 / 2, rho_slo = 0, alpha = 0, nu2 = 1\<rparr> < 1"
proof -
  let ?c = "\<lparr>burn_in = 1, n_sample = 2, thin = 2\<rparr>"
  let ?ds = "\<lambda>i::nat. \<lparr>beta_draw = [1], phi_draw = [1, 3], delta_draw = [0, 2], alpha_draw = 0,
               tau2_int_draw = 1, tau2_slo_draw = 2, rho_int_proposal = 1 / 2,
               rho_int_accept = True, rho_slo_proposal = 3 / 2, rho_slo_accept = True,
               nu2_draw = 1\<rparr>"
  let ?s = "\<lparr>beta = [0], phi = [0, 0], delta = [0, 0], tau2_int = 1, tau2_slo = 1,
          rho_int = 0, rho_slo = 0, alpha = 0, nu2 = 1\<rparr>"
  let ?r = "\<lparr>beta = [1], phi = [- 1, 1], delta = [- 1, 1], tau2_int = 1, tau2_slo = 2,
               rho_int = 1 / 2, rho_slo = 0, alpha = 0, nu2 = 1\<rparr>"
  have v: "valid_state ?s" by (simp add: valid_state_def)
  have run: "samples (run_chain ?c ?ds ?s) = [(3, ?r)]" by code_simp
  from retained_samples_within_bounds [OF v, of ?c ?ds] run
  have "0 \<le> rho_slo (snd (3::nat, ?r)) \<and> rho_int (snd (3::nat, ?r)) < 1" by simp
  with v run show ?thesis by simp
qed

end
